theory Spec2Isabelle
  imports Main "HOL-Library.Char_ord" "HOL-Library.List_Lexorder"
begin

section \<open>Numbers: binary64 values\<close>

text \<open>
  JavaScript numbers and the prices stored in the collection are IEEE 754 binary64
  values.  A finite value is kept as \<open>Fin m e\<close>, standing for \<open>m * 2 ^ e\<close>, in the
  normal form where \<open>m\<close> is odd, or \<open>m = 0\<close> and \<open>e = 0\<close>; so two finite values are
  equal as numbers exactly when they are equal as terms.  Negative zero is identified
  with zero.
\<close>

datatype double = Fin int int | PInf | NInf | NaN

function norm_dyadic :: "int \<Rightarrow> int \<Rightarrow> double" where
  "norm_dyadic m e = (if m = 0 then Fin 0 0
               else if even m then norm_dyadic (m div 2) (e + 1)
               else Fin m e)"
  by pat_completeness auto
termination
  by (relation "measure (\<lambda>(m, e). nat \<bar>m\<bar>)") auto

declare norm_dyadic.simps [simp del]

text \<open>The number of bits of a natural number, given and returned as an integer.\<close>

function bitlen :: "int \<Rightarrow> int" where
  "bitlen n = (if n \<le> 0 then 0 else 1 + bitlen (n div 2))"
  by pat_completeness auto
termination
  by (relation "measure nat") auto

declare bitlen.simps [simp del]

text \<open>
  \<open>round64 m e\<close> is the binary64 value nearest to \<open>m * 2 ^ e\<close>, ties to the even
  significand: 53 significant bits, the least exponent of a unit in the last place
  \<open>-1074\<close> (subnormal range), and overflow to an infinity from \<open>2 ^ 1024\<close> on.
\<close>

definition round64 :: "int \<Rightarrow> int \<Rightarrow> double" where
  "round64 m e =
     (let a = \<bar>m\<bar>;
          k = max (bitlen a - 53) (- 1074 - e)
      in if k \<le> 0 then
           (if bitlen a + e > 1024 then (if m < 0 then NInf else PInf)
            else norm_dyadic m e)
         else
           (let d = 2 ^ nat k;
                q = a div d;
                r = a mod d;
                n = (if 2 * r > d \<or> (2 * r = d \<and> odd q) then q + 1 else q)
            in if bitlen n + (e + k) > 1024 then (if m < 0 then NInf else PInf)
               else norm_dyadic (sgn m * n) (e + k)))"

text \<open>The product of two binary64 values, as \<open>*\<close> computes it.\<close>

fun dmul :: "double \<Rightarrow> double \<Rightarrow> double" where
  "dmul NaN y = NaN"
| "dmul x NaN = NaN"
| "dmul (Fin m e) (Fin n f) = round64 (m * n) (e + f)"
| "dmul (Fin m e) PInf = (if m = 0 then NaN else if 0 < m then PInf else NInf)"
| "dmul (Fin m e) NInf = (if m = 0 then NaN else if 0 < m then NInf else PInf)"
| "dmul PInf (Fin n f) = (if n = 0 then NaN else if 0 < n then PInf else NInf)"
| "dmul NInf (Fin n f) = (if n = 0 then NaN else if 0 < n then NInf else PInf)"
| "dmul PInf PInf = PInf"
| "dmul PInf NInf = NInf"
| "dmul NInf PInf = NInf"
| "dmul NInf NInf = PInf"

text \<open>An integer as a binary64 value (exact for the integers used here).\<close>

definition dbl :: "int \<Rightarrow> double" where
  "dbl i = round64 i 0"

text \<open>
  The literal \<open>1.1\<close>: the binary64 value \<open>0x1.199999999999ap+0\<close>, that is
  \<open>4953959590107546 * 2 ^ -52\<close>, in normal form.
\<close>

definition lit_1_1 :: double where
  "lit_1_1 = Fin 2476979795053773 (- 51)"

text \<open>The literal \<open>10.99\<close>: \<open>0x1.5fae147ae147bp+3\<close>.\<close>

definition lit_10_99 :: double where
  "lit_10_99 = Fin 6186819988100219 (- 49)"

text \<open>
  Order of two binary64 values in the database's sort order of numbers:
  \<open>NaN\<close> first, then \<open>-Infinity\<close>, the finite values, \<open>Infinity\<close>.
\<close>

fun dle :: "double \<Rightarrow> double \<Rightarrow> bool" where
  "dle NaN y = True"
| "dle x NaN = False"
| "dle NInf y = True"
| "dle x NInf = False"
| "dle x PInf = True"
| "dle PInf y = False"
| "dle (Fin m e) (Fin n f) =
     (if e \<le> f then m \<le> n * 2 ^ nat (f - e) else m * 2 ^ nat (e - f) \<le> n)"

section \<open>Documents and the Book Record\<close>

datatype val = VNull | VInt int | VNum double | VStr string | VBool bool

type_synonym doc = "(string \<times> val) list"

text \<open>
  The Book Record of the data model.  The script defines no schema and assumes that
  the records of the collection have this shape; the collection is a list of such
  records, in the order the server stores them.
\<close>

record book =
  title :: string
  author :: string
  genre :: string
  price :: double
  published_year :: int
  in_stock :: bool

definition doc_of :: "book \<Rightarrow> doc" where
  "doc_of b =
     [(''title'', VStr (title b)), (''author'', VStr (author b)), (''genre'', VStr (genre b)),
      (''price'', VNum (price b)), (''published_year'', VInt (published_year b)),
      (''in_stock'', VBool (in_stock b))]"

text \<open>
  Modelled from the spec: the comparison of values is the database's and no part of
  the source tree.  Values of different kinds are ordered by kind (null, numbers,
  strings, booleans), numbers by value whatever their representation, strings
  bytewise, \<open>false\<close> before \<open>true\<close>.
\<close>

fun bracket :: "val \<Rightarrow> nat" where
  "bracket VNull = 0"
| "bracket (VInt i) = 1"
| "bracket (VNum x) = 1"
| "bracket (VStr s) = 2"
| "bracket (VBool b) = 3"

fun vle :: "val \<Rightarrow> val \<Rightarrow> bool" where
  "vle (VInt i) (VInt j) = (i \<le> j)"
| "vle (VInt i) (VNum y) = dle (norm_dyadic i 0) y"
| "vle (VNum x) (VInt j) = dle x (norm_dyadic j 0)"
| "vle (VNum x) (VNum y) = dle x y"
| "vle (VStr a) (VStr b) = (a \<le> b)"
| "vle (VBool a) (VBool b) = (a \<le> b)"
| "vle a b = (bracket a \<le> bracket b)"

section \<open>Queries\<close>

text \<open>
  Modelled from the spec: the query language is the database's and no part of the
  source tree.  A filter document such as
  \<open>{ in_stock: true, published_year: { $gt: 1950 } }\<close> is a list of conditions on
  fields, all of which must hold; a record without the field does not match.  \<open>$lt\<close>
  and \<open>$gt\<close> compare within one kind of value only, and never hold of \<open>NaN\<close>.
\<close>

datatype cond = Eq val | Lt val | Gt val

type_synonym filter = "(string \<times> cond) list"

fun holds :: "cond \<Rightarrow> val \<Rightarrow> bool" where
  "holds (Eq v) x = (bracket x = bracket v \<and> vle x v \<and> vle v x)"
| "holds (Lt v) x = (bracket x = bracket v \<and> \<not> vle v x \<and> x \<noteq> VNum NaN \<and> v \<noteq> VNum NaN)"
| "holds (Gt v) x = (bracket x = bracket v \<and> \<not> vle x v \<and> x \<noteq> VNum NaN \<and> v \<noteq> VNum NaN)"

definition matches :: "filter \<Rightarrow> doc \<Rightarrow> bool" where
  "matches f d =
     list_all (\<lambda>(k, c). case map_of d k of None \<Rightarrow> False | Some x \<Rightarrow> holds c x) f"

text \<open>
  Modelled from the spec: sorting is the database's and no part of the source tree.
  A sort document \<open>{ price: -1 }\<close> is a list of keys with a direction, \<open>1\<close> ascending
  and \<open>-1\<close> descending.  The server leaves the order of records with equal keys open;
  here the sort is the stable insertion sort, so such records keep the order they have
  in the collection.  A missing field sorts as null.
\<close>

fun insort_by :: "('a \<Rightarrow> 'a \<Rightarrow> bool) \<Rightarrow> 'a \<Rightarrow> 'a list \<Rightarrow> 'a list" where
  "insort_by le x [] = [x]"
| "insort_by le x (y # ys) = (if le x y then x # y # ys else y # insort_by le x ys)"

definition sort_by :: "('a \<Rightarrow> 'a \<Rightarrow> bool) \<Rightarrow> 'a list \<Rightarrow> 'a list" where
  "sort_by le xs = foldr (insort_by le) xs []"

definition key_of :: "string \<Rightarrow> doc \<Rightarrow> val" where
  "key_of k d = (case map_of d k of None \<Rightarrow> VNull | Some v \<Rightarrow> v)"

definition doc_le :: "string \<times> int \<Rightarrow> doc \<Rightarrow> doc \<Rightarrow> bool" where
  "doc_le kd a b =
     (if snd kd < 0 then vle (key_of (fst kd) b) (key_of (fst kd) a)
      else vle (key_of (fst kd) a) (key_of (fst kd) b))"

definition sort_docs :: "(string \<times> int) list \<Rightarrow> doc list \<Rightarrow> doc list" where
  "sort_docs spec ds = foldr (\<lambda>kd xs. sort_by (doc_le kd) xs) spec ds"

text \<open>
  A read: \<open>find(filter, { projection })\<close> with the cursor modifiers \<open>sort\<close>, \<open>skip\<close> and
  \<open>limit\<close>; a modifier that the script does not call is \<open>None\<close> (the empty list for
  \<open>sort\<close>).  The projections of the script all exclude \<open>_id\<close>, which the model does
  not carry, and include the listed fields.
\<close>

record query =
  q_filter :: filter
  q_projection :: "string list option"
  q_sort :: "(string \<times> int) list"
  q_skip :: "nat option"
  q_limit :: "nat option"

definition project :: "string list option \<Rightarrow> doc \<Rightarrow> doc" where
  "project p d = (case p of None \<Rightarrow> d | Some ks \<Rightarrow> filter (\<lambda>(k, v). k \<in> set ks) d)"

definition skip_docs :: "nat option \<Rightarrow> 'a list \<Rightarrow> 'a list" where
  "skip_docs s xs = (case s of None \<Rightarrow> xs | Some n \<Rightarrow> drop n xs)"

definition limit_docs :: "nat option \<Rightarrow> 'a list \<Rightarrow> 'a list" where
  "limit_docs l xs = (case l of None \<Rightarrow> xs | Some n \<Rightarrow> if n = 0 then xs else take n xs)"

text \<open>
  Modelled from the spec: the client library's \<open>find\<close> is not part of the source tree.
  It reads the records matching the filter, sorted, then the subset from the offset
  on up to the limit, each projected to the listed fields.
\<close>

definition run_find :: "query \<Rightarrow> book list \<Rightarrow> doc list" where
  "run_find q bs =
     map (project (q_projection q))
       (limit_docs (q_limit q)
         (skip_docs (q_skip q)
           (sort_docs (q_sort q)
             (filter (matches (q_filter q)) (map doc_of bs)))))"

text \<open>
  Modelled from the spec: the client library's \<open>updateMany\<close> is not part of the
  source tree.  With the update \<open>{ $mul: { price: c } }\<close> it multiplies the price of
  every record matching the filter by \<open>c\<close>, and reports as \<open>modifiedCount\<close> the number
  of records that the update changed.
\<close>

datatype update = MulPrice double

fun apply_update :: "update \<Rightarrow> book \<Rightarrow> book" where
  "apply_update (MulPrice c) b = b\<lparr>price := dmul (price b) c\<rparr>"

definition updateMany_books :: "filter \<Rightarrow> update \<Rightarrow> book list \<Rightarrow> book list" where
  "updateMany_books f u bs =
     map (\<lambda>b. if matches f (doc_of b) then apply_update u b else b) bs"

definition modifiedCount :: "filter \<Rightarrow> update \<Rightarrow> book list \<Rightarrow> nat" where
  "modifiedCount f u bs =
     length (filter (\<lambda>b. matches f (doc_of b) \<and> apply_update u b \<noteq> b) bs)"

text \<open>
  Modelled from the spec: the client library's \<open>deleteMany\<close> is not part of the
  source tree.  It deletes every record matching the filter and reports their number
  as \<open>deletedCount\<close>.
\<close>

definition deleteMany_books :: "filter \<Rightarrow> book list \<Rightarrow> book list" where
  "deleteMany_books f bs = filter (\<lambda>b. \<not> matches f (doc_of b)) bs"

definition deletedCount :: "filter \<Rightarrow> book list \<Rightarrow> nat" where
  "deletedCount f bs = length (filter (\<lambda>b. matches f (doc_of b)) bs)"

section \<open>Aggregation pipelines\<close>

text \<open>
  Modelled from the spec: the pipeline language is the database's and no part of the
  source tree.  The group keys of the script are a field reference such as
  \<open>"$author"\<close> and the decade expression
  \<open>{ $concat: [{ $toString: { $subtract: ["$f", { $mod: ["$f", 10] }] } }, "s"] }\<close>;
  the accumulators are \<open>{ $avg: "$f" }\<close> and \<open>{ $sum: 1 }\<close>.
\<close>

datatype gkey = FieldRef string | DecadeOf string

datatype acc = Avg string | Count

datatype stage = Group gkey "(string \<times> acc) list" | Sort "(string \<times> int) list" | Limit nat

function decimal :: "int \<Rightarrow> string" where
  "decimal n =
     (if n < 0 then CHR ''-'' # decimal (- n)
      else if n < 10 then [char_of (48 + n)]
      else decimal (n div 10) @ [char_of (48 + n mod 10)])"
  by pat_completeness auto
termination
  by (relation "measure (\<lambda>n. if n < 0 then nat (- n) + 1 else nat n)") auto

declare decimal.simps [simp del]

text \<open>\<open>$mod\<close> takes the sign of the dividend.\<close>

definition decade :: "int \<Rightarrow> string" where
  "decade y = decimal (y - sgn y * (\<bar>y\<bar> mod 10)) @ ''s''"

text \<open>
  The value of a group key on a record; a missing field reads as null, and the decade
  of anything but an integer year is null.
\<close>

fun gkey_val :: "gkey \<Rightarrow> doc \<Rightarrow> val" where
  "gkey_val (FieldRef f) d = key_of f d"
| "gkey_val (DecadeOf f) d = (case key_of f d of VInt y \<Rightarrow> VStr (decade y) | _ \<Rightarrow> VNull)"

definition numbers_of :: "string \<Rightarrow> doc list \<Rightarrow> double list" where
  "numbers_of f ds =
     List.map_filter
       (\<lambda>d. case key_of f d of VNum x \<Rightarrow> Some x | VInt i \<Rightarrow> Some (norm_dyadic i 0) | _ \<Rightarrow> None) ds"

text \<open>
  The average of a group is computed by the server; its arithmetic is a parameter
  \<open>av\<close> of the model.  A group without numbers has the average null.
\<close>

fun acc_val :: "(double list \<Rightarrow> double) \<Rightarrow> acc \<Rightarrow> doc list \<Rightarrow> val" where
  "acc_val av (Avg f) ds = (case numbers_of f ds of [] \<Rightarrow> VNull | x # xs \<Rightarrow> VNum (av (x # xs)))"
| "acc_val av Count ds = VInt (int (length ds))"

text \<open>
  The server leaves the order of the groups open; here they come in the order in which
  their keys first occur.
\<close>

definition group_keys :: "gkey \<Rightarrow> doc list \<Rightarrow> val list" where
  "group_keys k ds = rev (remdups (rev (map (gkey_val k) ds)))"

definition group_rows ::
  "(double list \<Rightarrow> double) \<Rightarrow> gkey \<Rightarrow> (string \<times> acc) list \<Rightarrow> doc list \<Rightarrow> doc list" where
  "group_rows av k accs ds =
     map (\<lambda>key. (''_id'', key) #
                 map (\<lambda>(n, a). (n, acc_val av a (filter (\<lambda>d. gkey_val k d = key) ds))) accs)
       (group_keys k ds)"

fun run_stage :: "(double list \<Rightarrow> double) \<Rightarrow> stage \<Rightarrow> doc list \<Rightarrow> doc list" where
  "run_stage av (Group k accs) ds = group_rows av k accs ds"
| "run_stage av (Sort spec) ds = sort_docs spec ds"
| "run_stage av (Limit n) ds = take n ds"

text \<open>
  Modelled from the spec: the client library's \<open>aggregate\<close> is not part of the source
  tree.  It runs the stages in order over the full record set.
\<close>

definition run_pipeline :: "(double list \<Rightarrow> double) \<Rightarrow> stage list \<Rightarrow> book list \<Rightarrow> doc list" where
  "run_pipeline av stages bs = fold (run_stage av) stages (map doc_of bs)"

section \<open>The world of the scripts\<close>

text \<open>
  What the scripts do is recorded as a trace of events: the calls they make into the
  client libraries, each with the connection object it goes through, and the lines
  they print.  The emoji markers and the line breaks of the printed messages are left
  out of the strings.
\<close>

datatype error = Error string | TypeError string

datatype conn = Client string | Mongoose "string option"

datatype op =
    Find query
  | UpdateMany filter update
  | DeleteMany filter
  | Aggregate "stage list"
  | CreateIndex "(string \<times> int) list"
  | Indexes
  | Explain query string

datatype request = Connect | Close | On string string op

datatype piece =
    S string
  | N nat
  | V val
  | Fixed nat val
  | Ds "doc list"
  | Ixs "(string \<times> int) list list"
  | Stats query
  | E error

datatype event = Call conn request | Log "piece list" | LogError "piece list"

record world =
  books :: "book list"
  indexes :: "(string \<times> int) list list"
  open_conns :: "conn list"
  trace :: "event list"

text \<open>
  The part of the environment that the scripts cannot see: which awaited library call
  fails, and with which error (the calls are numbered in the order of the program
  text), and the server's averaging.
\<close>

record server =
  fault :: "nat \<Rightarrow> error option"
  average :: "double list \<Rightarrow> double"

type_synonym 'a action = "world \<Rightarrow> (error + 'a) \<times> world"

definition ret :: "'a \<Rightarrow> 'a action" where
  "ret x w = (Inr x, w)"

definition throw :: "error \<Rightarrow> 'a action" where
  "throw e w = (Inl e, w)"

definition bind :: "'a action \<Rightarrow> ('a \<Rightarrow> 'b action) \<Rightarrow> 'b action" where
  "bind m f w = (case m w of (Inl e, w') \<Rightarrow> (Inl e, w') | (Inr x, w') \<Rightarrow> f x w')"

fun seq :: "unit action list \<Rightarrow> unit action" where
  "seq [] = ret ()"
| "seq (s # ss) = bind s (\<lambda>_. seq ss)"

fun forEach :: "'a list \<Rightarrow> ('a \<Rightarrow> unit action) \<Rightarrow> unit action" where
  "forEach [] f = ret ()"
| "forEach (x # xs) f = bind (f x) (\<lambda>_. forEach xs f)"

definition console_log :: "piece list \<Rightarrow> unit action" where
  "console_log ps w = (Inr (), w\<lparr>trace := trace w @ [Log ps]\<rparr>)"

definition console_error :: "piece list \<Rightarrow> unit action" where
  "console_error ps w = (Inr (), w\<lparr>trace := trace w @ [LogError ps]\<rparr>)"

text \<open>
  An awaited library call: the call is made, and either fails with the error the
  environment has for it, leaving the database as it is, or takes effect and returns.
\<close>

definition await :: "server \<Rightarrow> nat \<Rightarrow> conn \<Rightarrow> request \<Rightarrow> (world \<Rightarrow> 'a \<times> world) \<Rightarrow> 'a action" where
  "await srv k c r eff w =
     (let w1 = w\<lparr>trace := trace w @ [Call c r]\<rparr>
      in case fault srv k of
           Some e \<Rightarrow> (Inl e, w1)
         | None \<Rightarrow> (case eff w1 of (x, w2) \<Rightarrow> (Inr x, w2)))"

text \<open>Reading an array element: \<open>undefined\<close> out of range.\<close>

definition at :: "'a list \<Rightarrow> nat \<Rightarrow> 'a option" where
  "at xs i = (if i < length xs then Some (xs ! i) else None)"

text \<open>\<open>x.toFixed(n)\<close> is a method of numbers; on anything else the call is a TypeError.\<close>

fun toFixed :: "val \<Rightarrow> nat \<Rightarrow> piece action" where
  "toFixed (VNum x) n = ret (Fixed n (VNum x))"
| "toFixed (VInt i) n = ret (Fixed n (VInt i))"
| "toFixed v n = throw (TypeError ''toFixed'')"

section \<open>The connection helper (connection.js)\<close>

text \<open>
  \<open>connectDB\<close> awaits \<open>mongoose.connect(process.env.MONGODB_URI)\<close> and then prints a
  line.  The environment \<open>env\<close> is \<open>process.env\<close> after \<open>dotenv\<close> has loaded its file;
  a variable that is not set reads as \<open>undefined\<close> (\<open>None\<close>).  A failure of the
  call surfaces to the caller.
\<close>

definition connectDB :: "(string \<Rightarrow> string option) \<Rightarrow> server \<Rightarrow> unit action" where
  "connectDB env srv =
     bind (await srv 0 (Mongoose (env ''MONGODB_URI'')) Connect
             (\<lambda>w. ((), w\<lparr>open_conns := Mongoose (env ''MONGODB_URI'') # open_conns w\<rparr>)))
       (\<lambda>_. console_log [S ''connected to mongodb''])"

section \<open>The query script\<close>

definition uri :: string where
  "uri = ''mongodb://localhost:27017''"

definition client :: conn where
  "client = Client uri"

definition DB_NAME :: string where
  "DB_NAME = ''plp_bookstore''"

definition COLLECTION_NAME :: string where
  "COLLECTION_NAME = ''books''"

subsection \<open>The calls on \<open>client\<close> and on \<open>booksCollection\<close>\<close>

definition client_connect :: "server \<Rightarrow> nat \<Rightarrow> unit action" where
  "client_connect srv k =
     await srv k client Connect (\<lambda>w. ((), w\<lparr>open_conns := client # open_conns w\<rparr>))"

definition client_close :: "server \<Rightarrow> nat \<Rightarrow> unit action" where
  "client_close srv k =
     await srv k client Close (\<lambda>w. ((), w\<lparr>open_conns := removeAll client (open_conns w)\<rparr>))"

definition booksCollection :: "op \<Rightarrow> request" where
  "booksCollection = On DB_NAME COLLECTION_NAME"

definition find_docs :: "server \<Rightarrow> nat \<Rightarrow> query \<Rightarrow> doc list action" where
  "find_docs srv k q = await srv k client (booksCollection (Find q)) (\<lambda>w. (run_find q (books w), w))"

definition updateMany :: "server \<Rightarrow> nat \<Rightarrow> filter \<Rightarrow> update \<Rightarrow> nat action" where
  "updateMany srv k f u =
     await srv k client (booksCollection (UpdateMany f u))
       (\<lambda>w. (modifiedCount f u (books w), w\<lparr>books := updateMany_books f u (books w)\<rparr>))"

definition deleteMany :: "server \<Rightarrow> nat \<Rightarrow> filter \<Rightarrow> nat action" where
  "deleteMany srv k f =
     await srv k client (booksCollection (DeleteMany f))
       (\<lambda>w. (deletedCount f (books w), w\<lparr>books := deleteMany_books f (books w)\<rparr>))"

definition aggregate :: "server \<Rightarrow> nat \<Rightarrow> stage list \<Rightarrow> doc list action" where
  "aggregate srv k stages =
     await srv k client (booksCollection (Aggregate stages))
       (\<lambda>w. (run_pipeline (average srv) stages (books w), w))"

definition createIndex :: "server \<Rightarrow> nat \<Rightarrow> (string \<times> int) list \<Rightarrow> unit action" where
  "createIndex srv k keys =
     await srv k client (booksCollection (CreateIndex keys))
       (\<lambda>w. ((), if keys \<in> set (indexes w) then w else w\<lparr>indexes := indexes w @ [keys]\<rparr>))"

definition list_indexes :: "server \<Rightarrow> nat \<Rightarrow> (string \<times> int) list list action" where
  "list_indexes srv k = await srv k client (booksCollection Indexes) (\<lambda>w. (indexes w, w))"

definition explain :: "server \<Rightarrow> nat \<Rightarrow> query \<Rightarrow> string \<Rightarrow> piece action" where
  "explain srv k q verbosity =
     await srv k client (booksCollection (Explain q verbosity)) (\<lambda>w. (Stats q, w))"

subsection \<open>The queries\<close>

definition projection :: "string list option" where
  "projection = Some [''title'', ''author'', ''price'']"

definition q_fantasyBooks :: query where
  "q_fantasyBooks =
     \<lparr>q_filter = [(''genre'', Eq (VStr ''Fantasy''))], q_projection = projection,
      q_sort = [], q_skip = None, q_limit = None\<rparr>"

definition f_fantasy :: filter where
  "f_fantasy = [(''genre'', Eq (VStr ''Fantasy''))]"

definition f_old :: filter where
  "f_old = [(''published_year'', Lt (VInt 1950))]"

definition q_inStockAfter1950 :: query where
  "q_inStockAfter1950 =
     \<lparr>q_filter = [(''in_stock'', Eq (VBool True)), (''published_year'', Gt (VInt 1950))],
      q_projection = projection, q_sort = [], q_skip = None, q_limit = None\<rparr>"

definition q_top3Books :: query where
  "q_top3Books =
     \<lparr>q_filter = [], q_projection = projection,
      q_sort = [(''price'', - 1)], q_skip = None, q_limit = Some 3\<rparr>"

definition PAGE_SIZE :: nat where
  "PAGE_SIZE = 5"

definition q_page1 :: query where
  "q_page1 =
     \<lparr>q_filter = [], q_projection = projection,
      q_sort = [(''title'', 1)], q_skip = Some 0, q_limit = Some PAGE_SIZE\<rparr>"

definition q_page2 :: query where
  "q_page2 =
     \<lparr>q_filter = [], q_projection = projection,
      q_sort = [(''title'', 1)], q_skip = Some PAGE_SIZE, q_limit = Some PAGE_SIZE\<rparr>"

definition p_topAuthors :: "stage list" where
  "p_topAuthors =
     [Group (FieldRef ''author'') [(''avgPrice'', Avg ''price''), (''totalBooks'', Count)],
      Sort [(''avgPrice'', - 1)],
      Limit 5]"

definition p_avgPriceByGenre :: "stage list" where
  "p_avgPriceByGenre =
     [Group (FieldRef ''genre'') [(''avgPrice'', Avg ''price''), (''totalBooks'', Count)],
      Sort [(''avgPrice'', - 1)]]"

definition p_topAuthorByBooks :: "stage list" where
  "p_topAuthorByBooks =
     [Group (FieldRef ''author'') [(''bookCount'', Count)],
      Sort [(''bookCount'', - 1)],
      Limit 1]"

definition p_booksByDecade :: "stage list" where
  "p_booksByDecade =
     [Group (DecadeOf ''published_year'') [(''count'', Count)],
      Sort [(''_id'', 1)]]"

definition q_booksAsc :: query where
  "q_booksAsc =
     \<lparr>q_filter = [], q_projection = projection,
      q_sort = [(''price'', 1)], q_skip = None, q_limit = None\<rparr>"

definition q_booksDesc :: query where
  "q_booksDesc =
     \<lparr>q_filter = [], q_projection = projection,
      q_sort = [(''price'', - 1)], q_skip = None, q_limit = None\<rparr>"

definition q_indexed :: query where
  "q_indexed =
     \<lparr>q_filter = [(''title'', Eq (VStr ''The Alchemist''))], q_projection = None,
      q_sort = [], q_skip = None, q_limit = None\<rparr>"

definition q_nonIndexed :: query where
  "q_nonIndexed =
     \<lparr>q_filter = [(''price'', Eq (VNum lit_10_99))], q_projection = None,
      q_sort = [], q_skip = None, q_limit = None\<rparr>"

subsection \<open>The steps of \<open>executeQueries\<close>\<close>

text \<open>
  Each step is one awaited call with the printing that follows it, in the order of the
  program text; the number is the position of the call among the awaited calls.
\<close>

definition book_line :: "doc \<Rightarrow> unit action" where
  "book_line book =
     console_log [S ''  - '', V (key_of ''title'' book), S '' by '', V (key_of ''author'' book),
                  S '' ($'', V (key_of ''price'' book), S '')'']"

definition price_line :: "doc \<Rightarrow> unit action" where
  "price_line a =
     bind (toFixed (key_of ''avgPrice'' a) 2)
       (\<lambda>p. console_log [S ''  - '', V (key_of ''_id'' a), S '': $'', p,
                          S '' ('', V (key_of ''totalBooks'' a), S '' books)''])"

definition s_connect :: "server \<Rightarrow> unit action" where
  "s_connect srv =
     seq [console_log [S ''Attempting to connect to MongoDB Atlas...''],
          client_connect srv 0,
          console_log [S ''Successfully connected to MongoDB Atlas!'']]"

definition s_fantasyBooks :: "server \<Rightarrow> unit action" where
  "s_fantasyBooks srv =
     bind (find_docs srv 1 q_fantasyBooks)
       (\<lambda>fantasyBooks. console_log [S ''Found Fantasy Books:'', Ds fantasyBooks])"

definition s_updateFantasy :: "server \<Rightarrow> unit action" where
  "s_updateFantasy srv =
     bind (updateMany srv 2 f_fantasy (MulPrice lit_1_1))
       (\<lambda>modified. console_log [S ''Updated '', N modified, S '' Fantasy book prices by 10%.''])"

definition s_deleteOld :: "server \<Rightarrow> unit action" where
  "s_deleteOld srv =
     bind (deleteMany srv 3 f_old)
       (\<lambda>deleted. console_log [S ''Deleted '', N deleted, S '' books published before 1950.''])"

definition s_inStockAfter1950 :: "server \<Rightarrow> unit action" where
  "s_inStockAfter1950 srv =
     bind (find_docs srv 4 q_inStockAfter1950)
       (\<lambda>inStockAfter1950.
          console_log [S ''Books In Stock & Published After 1950:'', Ds inStockAfter1950])"

definition s_top3Books :: "server \<Rightarrow> unit action" where
  "s_top3Books srv =
     bind (find_docs srv 5 q_top3Books)
       (\<lambda>top3Books. console_log [S ''Top 3 Most Expensive Books:'', Ds top3Books])"

definition s_page1 :: "server \<Rightarrow> unit action" where
  "s_page1 srv =
     bind (find_docs srv 6 q_page1)
       (\<lambda>page1.
          seq [console_log [S ''Pagination - Page 1 (First 5 Books, Sorted by Title):''],
               forEach page1 book_line])"

definition s_page2 :: "server \<Rightarrow> unit action" where
  "s_page2 srv =
     bind (find_docs srv 7 q_page2)
       (\<lambda>page2.
          seq [console_log [S ''Pagination - Page 2 (Next 5 Books, Sorted by Title):''],
               forEach page2 book_line])"

definition s_topAuthors :: "server \<Rightarrow> unit action" where
  "s_topAuthors srv =
     seq [console_log [S ''--- 3. AGGREGATION PIPELINE: Top 5 Authors by Avg Book Price ---''],
          bind (aggregate srv 8 p_topAuthors) (\<lambda>topAuthors. forEach topAuthors price_line)]"

definition s_avgPriceByGenre :: "server \<Rightarrow> unit action" where
  "s_avgPriceByGenre srv =
     seq [console_log [S ''--- 4. AGGREGATION PIPELINE: Average Price by Genre ---''],
          bind (aggregate srv 9 p_avgPriceByGenre)
            (\<lambda>avgPriceByGenre.
               seq [console_log [S ''Average Book Price by Genre:''],
                    forEach avgPriceByGenre price_line])]"

definition s_topAuthorByBooks :: "server \<Rightarrow> unit action" where
  "s_topAuthorByBooks srv =
     seq [console_log [S ''--- 7. AGGREGATION PIPELINE: Author with Most Books ---''],
          bind (aggregate srv 10 p_topAuthorByBooks)
            (\<lambda>topAuthorByBooks.
               if length topAuthorByBooks > 0 then
                 (case at topAuthorByBooks 0 of
                    None \<Rightarrow> throw (TypeError ''_id'')
                  | Some author' \<Rightarrow>
                      console_log [S ''Author with Most Books: '', V (key_of ''_id'' author'),
                                   S '' ('', V (key_of ''bookCount'' author'), S '' books)''])
               else console_log [S ''No authors found in the collection.''])]"

definition s_booksByDecade :: "server \<Rightarrow> unit action" where
  "s_booksByDecade srv =
     seq [console_log [S ''--- 8. AGGREGATION PIPELINE: Books Grouped by Publication Decade ---''],
          bind (aggregate srv 11 p_booksByDecade)
            (\<lambda>booksByDecade.
               seq [console_log [S ''Books Grouped by Publication Decade:''],
                    forEach booksByDecade
                      (\<lambda>d. console_log [S ''  - '', V (key_of ''_id'' d), S '': '',
                                         V (key_of ''count'' d), S '' books''])])]"

definition s_index_title :: "server \<Rightarrow> unit action" where
  "s_index_title srv =
     seq [console_log [S ''--- 5. INDEXING ---''],
          createIndex srv 12 [(''title'', 1)],
          console_log [S ''Created index on 'title' field.'']]"

definition s_index_compound :: "server \<Rightarrow> unit action" where
  "s_index_compound srv =
     seq [console_log [S ''--- 6. COMPOUND INDEX ---''],
          createIndex srv 13 [(''author'', 1), (''published_year'', 1)],
          console_log [S ''Created compound index on 'author' and 'published_year' fields.'']]"

definition s_indexes :: "server \<Rightarrow> unit action" where
  "s_indexes srv =
     bind (list_indexes srv 14)
       (\<lambda>ixs. console_log [S ''Current Indexes on 'books' Collection:'', Ixs ixs])"

definition s_booksAsc :: "server \<Rightarrow> unit action" where
  "s_booksAsc srv =
     seq [console_log [S ''--- 7. SORTING ---''],
          bind (find_docs srv 15 q_booksAsc)
            (\<lambda>booksAsc.
               seq [console_log [S ''Books Sorted by Price (Ascending):''],
                    forEach booksAsc book_line])]"

definition s_booksDesc :: "server \<Rightarrow> unit action" where
  "s_booksDesc srv =
     bind (find_docs srv 16 q_booksDesc)
       (\<lambda>booksDesc.
          seq [console_log [S ''Books Sorted by Price (Descending):''],
               forEach booksDesc book_line])"

definition s_indexedExplain :: "server \<Rightarrow> unit action" where
  "s_indexedExplain srv =
     seq [console_log [S ''--- 8. INDEX PERFORMANCE TEST (Using explain()) ---''],
          bind (explain srv 17 q_indexed ''executionStats'')
            (\<lambda>stats. seq [console_log [S ''Indexed Query Explain Plan:''], console_log [stats]])]"

definition s_nonIndexedExplain :: "server \<Rightarrow> unit action" where
  "s_nonIndexedExplain srv =
     bind (explain srv 18 q_nonIndexed ''executionStats'')
       (\<lambda>stats. seq [console_log [S ''Non-Indexed Query Explain Plan:''], console_log [stats]])"

text \<open>The body of the \<open>try\<close> block.\<close>

definition try_steps :: "server \<Rightarrow> unit action list" where
  "try_steps srv =
     [s_connect srv,
      console_log [S ''--- 1. CRUD OPERATIONS ---''],
      s_fantasyBooks srv,
      s_updateFantasy srv,
      s_deleteOld srv,
      console_log [S ''--- 2. ADVANCED QUERIES ---''],
      s_inStockAfter1950 srv,
      s_top3Books srv,
      s_page1 srv,
      s_page2 srv,
      s_topAuthors srv,
      s_avgPriceByGenre srv,
      s_topAuthorByBooks srv,
      s_booksByDecade srv,
      s_index_title srv,
      s_index_compound srv,
      s_indexes srv,
      s_booksAsc srv,
      s_booksDesc srv,
      s_indexedExplain srv,
      s_nonIndexedExplain srv,
      console_log [S ''Query execution complete.'']]"

text \<open>
  \<open>try { ... } catch (error) { console.error(..., error) } finally { await client.close();
  console.log(...) }\<close>.  The result is that of the \<open>finally\<close> block: an error of
  \<open>client.close()\<close> is the only one that leaves the function.
\<close>

definition catch_error :: "(error + unit) \<times> world \<Rightarrow> world" where
  "catch_error rw =
     (case rw of
        (Inl e, w) \<Rightarrow> snd (console_error [S ''Error occurred:'', E e] w)
      | (Inr u, w) \<Rightarrow> w)"

definition finally_block :: "server \<Rightarrow> unit action" where
  "finally_block srv = seq [client_close srv 19, console_log [S ''Connection closed.'']]"

definition executeQueries :: "server \<Rightarrow> unit action" where
  "executeQueries srv w = finally_block srv (catch_error (seq (try_steps srv) w))"

section \<open>Reading a trace\<close>

text \<open>The library calls of a trace, in order.\<close>

fun calls_of :: "event list \<Rightarrow> (conn \<times> request) list" where
  "calls_of [] = []"
| "calls_of (Call c r # evs) = (c, r) # calls_of evs"
| "calls_of (Log ps # evs) = calls_of evs"
| "calls_of (LogError ps # evs) = calls_of evs"

text \<open>
  \<open>makes a rs\<close>: whatever the world, the action \<open>a\<close> only appends to the trace, the
  calls it makes are an initial part of \<open>rs\<close>, and all of \<open>rs\<close> when it returns
  normally.
\<close>

definition makes :: "'a action \<Rightarrow> (conn \<times> request) list \<Rightarrow> bool" where
  "makes a rs =
     (\<forall>w. \<exists>evs. trace (snd (a w)) = trace w @ evs \<and>
        (\<exists>n. calls_of evs = take n rs) \<and>
        (\<forall>x. fst (a w) = Inr x \<longrightarrow> calls_of evs = rs))"

text \<open>The events that a run has added to the trace of the world it started in.\<close>

definition new_events :: "world \<Rightarrow> world \<Rightarrow> event list" where
  "new_events w w' = drop (length (trace w)) (trace w')"

text \<open>The awaited calls of the query script, in the order of the program text.\<close>

definition requests :: "(conn \<times> request) list" where
  "requests =
     [(client, Connect),
      (client, booksCollection (Find q_fantasyBooks)),
      (client, booksCollection (UpdateMany f_fantasy (MulPrice lit_1_1))),
      (client, booksCollection (DeleteMany f_old)),
      (client, booksCollection (Find q_inStockAfter1950)),
      (client, booksCollection (Find q_top3Books)),
      (client, booksCollection (Find q_page1)),
      (client, booksCollection (Find q_page2)),
      (client, booksCollection (Aggregate p_topAuthors)),
      (client, booksCollection (Aggregate p_avgPriceByGenre)),
      (client, booksCollection (Aggregate p_topAuthorByBooks)),
      (client, booksCollection (Aggregate p_booksByDecade)),
      (client, booksCollection (CreateIndex [(''title'', 1)])),
      (client, booksCollection (CreateIndex [(''author'', 1), (''published_year'', 1)])),
      (client, booksCollection Indexes),
      (client, booksCollection (Find q_booksAsc)),
      (client, booksCollection (Find q_booksDesc)),
      (client, booksCollection (Explain q_indexed ''executionStats'')),
      (client, booksCollection (Explain q_nonIndexed ''executionStats''))]"

text \<open>
  \<open>returns a P\<close>: whatever the world, the action \<open>a\<close> returns normally, with a value
  satisfying \<open>P\<close>.
\<close>

definition returns :: "'a action \<Rightarrow> ('a \<Rightarrow> bool) \<Rightarrow> bool" where
  "returns a P = (\<forall>w. \<exists>x w'. a w = (Inr x, w') \<and> P x)"

text \<open>\<open>keeps a\<close>: whatever the world, the action \<open>a\<close> leaves the collection as it is.\<close>

definition keeps :: "'a action \<Rightarrow> bool" where
  "keeps a = (\<forall>w. books (snd (a w)) = books w)"

text \<open>The collection after the two writing steps of the script.\<close>

definition after_crud :: "book list \<Rightarrow> book list" where
  "after_crud bs = deleteMany_books f_old (updateMany_books f_fantasy (MulPrice lit_1_1) bs)"

text \<open>The steps between the delete and the aggregation for the author with most books.\<close>

definition reads_before_authors :: "server \<Rightarrow> unit action list" where
  "reads_before_authors srv = take 7 (drop 5 (try_steps srv))"

text \<open>The accumulators of a group stage count the records of a group under the given name.\<close>

definition counted :: "string \<Rightarrow> (string \<times> acc) list \<Rightarrow> bool" where
  "counted name accs = (name \<noteq> ''_id'' \<and> map_of accs name = Some Count)"

text \<open>The records in the order of their titles.\<close>

definition by_title :: "book list \<Rightarrow> book list" where
  "by_title bs = sort_by (\<lambda>a b. title a \<le> title b) bs"

text \<open>
  \<open>keeps_conns a\<close>: whatever the world, the action \<open>a\<close> neither opens nor closes a
  connection.
\<close>

definition keeps_conns :: "'a action \<Rightarrow> bool" where
  "keeps_conns a = (\<forall>w. open_conns (snd (a w)) = open_conns w)"

section \<open>Example data\<close>

text \<open>
  A world with the given collection, the default index, no open connection and an
  empty trace; and a server with the given failures, whose averaging returns the first
  number of a group (the exact average of a group of one record).
\<close>

definition ex_world :: "book list \<Rightarrow> world" where
  "ex_world bs = \<lparr>books = bs, indexes = [[(''_id'', 1)]], open_conns = [], trace = []\<rparr>"

definition ex_server :: "(nat \<Rightarrow> error option) \<Rightarrow> server" where
  "ex_server flt = \<lparr>fault = flt, average = (\<lambda>xs. hd xs)\<rparr>"

definition failing_at :: "nat \<Rightarrow> error \<Rightarrow> server" where
  "failing_at k e = ex_server (\<lambda>j. if j = k then Some e else None)"

definition never_failing :: server where
  "never_failing = ex_server (\<lambda>j. None)"

text \<open>An environment in which only \<open>MONGODB_URI\<close> is set.\<close>

definition ex_env :: "string \<Rightarrow> string \<Rightarrow> string option" where
  "ex_env u = (\<lambda>k. if k = ''MONGODB_URI'' then Some u else None)"

text \<open>Three records of the genre Fantasy with the prices 10, 20 and 30.\<close>

definition hobbit :: book where
  "hobbit = \<lparr>title = ''The Hobbit'', author = ''J.R.R. Tolkien'', genre = ''Fantasy'',
             price = dbl 10, published_year = 1937, in_stock = True\<rparr>"

definition earthsea :: book where
  "earthsea = \<lparr>title = ''A Wizard of Earthsea'', author = ''Ursula K. Le Guin'',
               genre = ''Fantasy'', price = dbl 20, published_year = 1968, in_stock = True\<rparr>"

definition colour_of_magic :: book where
  "colour_of_magic = \<lparr>title = ''The Colour of Magic'', author = ''Terry Pratchett'',
                      genre = ''Fantasy'', price = dbl 30, published_year = 1983,
                      in_stock = False\<rparr>"

definition seed_fantasy :: "book list" where
  "seed_fantasy = [hobbit, earthsea, colour_of_magic]"

text \<open>Six records by six authors.\<close>

definition by_author :: "string \<Rightarrow> book" where
  "by_author a = \<lparr>title = ''Collected Works'', author = a, genre = ''Essays'',
                  price = dbl 10, published_year = 2001, in_stock = True\<rparr>"

definition six_authors :: "book list" where
  "six_authors = map by_author [''A'', ''B'', ''C'', ''D'', ''E'', ''F'']"





text \<open>A server on which both the connect and the close fail.\<close>

definition connect_and_close_fail :: server where
  "connect_and_close_fail =
     ex_server (\<lambda>j. if j = 0 \<or> j = 19 then Some (Error ''ECONNREFUSED'') else None)"

section \<open>The properties in question\<close>

text \<open>The address a connection object is opened with.\<close>

fun target :: "conn \<Rightarrow> string option" where
  "target (Client u) = Some u"
| "target (Mongoose u) = u"

text \<open>The addresses of the connect calls of a trace.\<close>

definition connect_targets :: "event list \<Rightarrow> string option list" where
  "connect_targets evs = map (target \<circ> fst) (filter (\<lambda>cr. snd cr = Connect) (calls_of evs))"

text \<open>
  The Connector runs first and the Query Runner after it, and every library call of the
  Query Runner goes through a connection that the Connector has opened.
\<close>

definition runs_on_connector :: "(string \<Rightarrow> string option) \<Rightarrow> server \<Rightarrow> world \<Rightarrow> bool" where
  "runs_on_connector env srv w =
     (let w1 = snd (connectDB env srv w)
      in list_all (\<lambda>c. c \<in> set (open_conns w1))
           (map fst (calls_of (new_events w1 (snd (executeQueries srv w1))))))"

text \<open>
  Every connection that the query script opens goes to the address configured in the
  environment variable \<open>MONGODB_URI\<close>.
\<close>

definition target_from_env :: "(string \<Rightarrow> string option) \<Rightarrow> server \<Rightarrow> world \<Rightarrow> bool" where
  "target_from_env env srv w =
     list_all (\<lambda>t. t = env ''MONGODB_URI'')
       (connect_targets (new_events w (snd (executeQueries srv w))))"

text \<open>The queries of the reads among the calls of a trace, in order.\<close>

fun find_queries :: "(conn \<times> request) list \<Rightarrow> query list" where
  "find_queries [] = []"
| "find_queries ((c, On d n (Find q)) # rs) = q # find_queries rs"
| "find_queries (cr # rs) = find_queries rs"

text \<open>A read is paginated when it takes both an offset and a limit.\<close>

definition paginated :: "query \<Rightarrow> bool" where
  "paginated q = (q_skip q \<noteq> None \<and> q_limit q \<noteq> None)"

definition paginated_reads :: "event list \<Rightarrow> query list" where
  "paginated_reads evs = filter paginated (find_queries (calls_of evs))"

text \<open>
  There are exactly two paginated reads, and they differ both in their filter and in
  their sort order.
\<close>

definition two_distinct_paginated_reads :: "event list \<Rightarrow> bool" where
  "two_distinct_paginated_reads evs =
     (case paginated_reads evs of
        [a, b] \<Rightarrow> q_filter a \<noteq> q_filter b \<and> q_sort a \<noteq> q_sort b
      | _ \<Rightarrow> False)"

text \<open>The count that a row of an aggregation result carries under the given name.\<close>

definition row_count :: "string \<Rightarrow> doc \<Rightarrow> nat" where
  "row_count name r = (case key_of name r of VInt n \<Rightarrow> nat n | _ \<Rightarrow> 0)"

text \<open>The sum of the counts of the rows.\<close>

definition count_sum :: "string \<Rightarrow> doc list \<Rightarrow> nat" where
  "count_sum name rows = sum_list (map (row_count name) rows)"

text \<open>The counts of every pipeline of the script sum to the number of records.\<close>

definition counts_sum_to_total :: "(double list \<Rightarrow> double) \<Rightarrow> book list \<Rightarrow> bool" where
  "counts_sum_to_total av bs =
     (count_sum ''totalBooks'' (run_pipeline av p_topAuthors bs) = length bs \<and>
      count_sum ''totalBooks'' (run_pipeline av p_avgPriceByGenre bs) = length bs \<and>
      count_sum ''bookCount'' (run_pipeline av p_topAuthorByBooks bs) = length bs \<and>
      count_sum ''count'' (run_pipeline av p_booksByDecade bs) = length bs)"

text \<open>
  The full sorted record set of the pagination: the read of the two pages without
  offset and limit.
\<close>

definition q_all_by_title :: query where
  "q_all_by_title =
     \<lparr>q_filter = [], q_projection = projection,
      q_sort = [(''title'', 1)], q_skip = None, q_limit = None\<rparr>"




text \<open>
  After a failed connect: the calls of the run are the connect and the close, so that
  no query step has run, and the last line printed is the closing message.
\<close>

definition closes_with_message :: "server \<Rightarrow> world \<Rightarrow> bool" where
  "closes_with_message srv w =
     (calls_of (new_events w (snd (executeQueries srv w))) = [(client, Connect), (client, Close)] \<and>
      new_events w (snd (executeQueries srv w)) \<noteq> [] \<and>
      last (new_events w (snd (executeQueries srv w))) = Log [S ''Connection closed.''])"

section \<open>The structure of a run\<close>

lemma calls_of_append [simp]: "calls_of (xs @ ys) = calls_of xs @ calls_of ys"
  by (induction xs rule: calls_of.induct) auto

lemma makes_ret: "makes (ret x) []"
  by (simp add: makes_def ret_def)

lemma makes_throw: "makes (throw e) []"
  by (simp add: makes_def throw_def)

lemma makes_console_log: "makes (console_log ps) []"
  by (simp add: makes_def console_log_def)

lemma makes_await:
  assumes "\<And>w. trace (snd (eff w)) = trace w"
  shows "makes (await srv k c r eff) [(c, r)]"
  unfolding makes_def
proof
  fix w :: world
  let ?w1 = "w\<lparr>trace := trace w @ [Call c r]\<rparr>"
  show "\<exists>evs. trace (snd (await srv k c r eff w)) = trace w @ evs \<and>
        (\<exists>n. calls_of evs = take n [(c, r)]) \<and>
        (\<forall>x. fst (await srv k c r eff w) = Inr x \<longrightarrow> calls_of evs = [(c, r)])"
  proof (cases "fault srv k")
    case None
    have "trace (snd (eff ?w1)) = trace w @ [Call c r]"
      using assms [of ?w1] by simp
    then have "trace (snd (await srv k c r eff w)) = trace w @ [Call c r]"
      using None by (auto simp add: await_def split: prod.splits)
    moreover have "calls_of [Call c r] = take 1 [(c, r)]" by simp
    ultimately show ?thesis by (metis calls_of.simps(1,2))
  next
    case (Some e)
    then have "trace (snd (await srv k c r eff w)) = trace w @ [Call c r]"
      by (simp add: await_def)
    moreover have "calls_of [Call c r] = take 1 [(c, r)]" by simp
    ultimately show ?thesis by (metis calls_of.simps(1,2))
  qed
qed

lemma makes_bind:
  assumes m: "makes m rs" and f: "\<And>x. makes (f x) qs"
  shows "makes (bind m f) (rs @ qs)"
  unfolding makes_def
proof
  fix w :: world
  obtain r w1 where mw: "m w = (r, w1)" by (cases "m w")
  from m obtain e1 n1 where e1: "trace w1 = trace w @ e1" "calls_of e1 = take n1 rs"
    and ok1: "\<And>x. r = Inr x \<Longrightarrow> calls_of e1 = rs"
    unfolding makes_def using mw by (metis fst_conv snd_conv)
  show "\<exists>evs. trace (snd (bind m f w)) = trace w @ evs \<and>
        (\<exists>n. calls_of evs = take n (rs @ qs)) \<and>
        (\<forall>x. fst (bind m f w) = Inr x \<longrightarrow> calls_of evs = rs @ qs)"
  proof (cases r)
    case (Inl e)
    then have b: "bind m f w = (Inl e, w1)" using mw by (simp add: bind_def)
    have "calls_of e1 = take (min n1 (length rs)) (rs @ qs)"
      using e1(2) by (simp add: min_def)
    then have "\<exists>n. calls_of e1 = take n (rs @ qs)" by blast
    then show ?thesis using b e1(1) by simp
  next
    case (Inr x)
    then have b: "bind m f w = f x w1" using mw by (simp add: bind_def)
    from f [of x] obtain e2 n2 where e2: "trace (snd (f x w1)) = trace w1 @ e2"
      "calls_of e2 = take n2 qs"
      and ok2: "\<And>y. fst (f x w1) = Inr y \<Longrightarrow> calls_of e2 = qs"
      unfolding makes_def by metis
    have c1: "calls_of e1 = rs" using ok1 Inr by simp
    have "calls_of (e1 @ e2) = take (length rs + n2) (rs @ qs)"
      using c1 e2(2) by simp
    moreover have "trace (snd (bind m f w)) = trace w @ (e1 @ e2)"
      using b e1(1) e2(1) by simp
    moreover have "\<And>y. fst (bind m f w) = Inr y \<Longrightarrow> calls_of (e1 @ e2) = rs @ qs"
      using b ok2 c1 by simp
    ultimately show ?thesis by blast
  qed
qed

lemma makes_seq_Nil: "makes (seq []) []"
  by (simp add: makes_ret)

lemma makes_seq_Cons: "makes s rs \<Longrightarrow> makes (seq ss) qs \<Longrightarrow> makes (seq (s # ss)) (rs @ qs)"
  by (simp add: makes_bind)

lemma makes_forEach: "(\<And>x. makes (f x) []) \<Longrightarrow> makes (forEach xs f) []"
proof (induction xs)
  case Nil
  then show ?case by (simp add: makes_ret)
next
  case (Cons x xs)
  have "makes (bind (f x) (\<lambda>_. forEach xs f)) ([] @ [])"
    by (rule makes_bind) (use Cons in auto)
  then show ?case by simp
qed

lemma makes_if: "makes a rs \<Longrightarrow> makes b rs \<Longrightarrow> makes (if c then a else b) rs"
  by simp

lemma makes_case_option:
  "makes a rs \<Longrightarrow> (\<And>x. makes (f x) rs) \<Longrightarrow> makes (case t of None \<Rightarrow> a | Some x \<Rightarrow> f x) rs"
  by (cases t) auto

lemma makes_toFixed: "makes (toFixed v n) []"
  by (cases v) (simp_all add: makes_ret makes_throw)

lemma makes_book_line: "makes (book_line d) []"
  by (simp add: book_line_def makes_console_log)

lemma makes_price_line: "makes (price_line d) []"
proof -
  have "makes (price_line d) ([] @ [])"
    unfolding price_line_def by (intro makes_bind makes_toFixed makes_console_log)
  then show ?thesis by simp
qed

lemmas makes_intros =
  makes_seq_Cons makes_seq_Nil makes_bind makes_console_log makes_forEach makes_book_line
  makes_price_line makes_throw makes_ret

lemma makes_s_connect: "makes (s_connect srv) [(client, Connect)]"
proof -
  have "makes (s_connect srv)
          ([] @ [(client, Connect)] @ [] @ [])"
    unfolding s_connect_def client_connect_def
    by (intro makes_intros makes_await makes_if makes_case_option) (simp_all split: prod.splits)
  then show ?thesis by simp
qed

lemma makes_s_fantasyBooks: "makes (s_fantasyBooks srv) [(client, booksCollection (Find q_fantasyBooks))]"
proof -
  have "makes (s_fantasyBooks srv)
          ([(client, booksCollection (Find q_fantasyBooks))] @ [])"
    unfolding s_fantasyBooks_def find_docs_def
    by (intro makes_intros makes_await makes_if makes_case_option) (simp_all split: prod.splits)
  then show ?thesis by simp
qed

lemma makes_s_updateFantasy: "makes (s_updateFantasy srv) [(client, booksCollection (UpdateMany f_fantasy (MulPrice lit_1_1)))]"
proof -
  have "makes (s_updateFantasy srv)
          ([(client, booksCollection (UpdateMany f_fantasy (MulPrice lit_1_1)))] @ [])"
    unfolding s_updateFantasy_def updateMany_def
    by (intro makes_intros makes_await makes_if makes_case_option) (simp_all split: prod.splits)
  then show ?thesis by simp
qed

lemma makes_s_deleteOld: "makes (s_deleteOld srv) [(client, booksCollection (DeleteMany f_old))]"
proof -
  have "makes (s_deleteOld srv)
          ([(client, booksCollection (DeleteMany f_old))] @ [])"
    unfolding s_deleteOld_def deleteMany_def
    by (intro makes_intros makes_await makes_if makes_case_option) (simp_all split: prod.splits)
  then show ?thesis by simp
qed

lemma makes_s_inStockAfter1950: "makes (s_inStockAfter1950 srv) [(client, booksCollection (Find q_inStockAfter1950))]"
proof -
  have "makes (s_inStockAfter1950 srv)
          ([(client, booksCollection (Find q_inStockAfter1950))] @ [])"
    unfolding s_inStockAfter1950_def find_docs_def
    by (intro makes_intros makes_await makes_if makes_case_option) (simp_all split: prod.splits)
  then show ?thesis by simp
qed

lemma makes_s_top3Books: "makes (s_top3Books srv) [(client, booksCollection (Find q_top3Books))]"
proof -
  have "makes (s_top3Books srv)
          ([(client, booksCollection (Find q_top3Books))] @ [])"
    unfolding s_top3Books_def find_docs_def
    by (intro makes_intros makes_await makes_if makes_case_option) (simp_all split: prod.splits)
  then show ?thesis by simp
qed

lemma makes_s_page1: "makes (s_page1 srv) [(client, booksCollection (Find q_page1))]"
proof -
  have "makes (s_page1 srv)
          ([(client, booksCollection (Find q_page1))] @ ([] @ [] @ []))"
    unfolding s_page1_def find_docs_def
    by (intro makes_intros makes_await makes_if makes_case_option) (simp_all split: prod.splits)
  then show ?thesis by simp
qed

lemma makes_s_page2: "makes (s_page2 srv) [(client, booksCollection (Find q_page2))]"
proof -
  have "makes (s_page2 srv)
          ([(client, booksCollection (Find q_page2))] @ ([] @ [] @ []))"
    unfolding s_page2_def find_docs_def
    by (intro makes_intros makes_await makes_if makes_case_option) (simp_all split: prod.splits)
  then show ?thesis by simp
qed

lemma makes_s_topAuthors: "makes (s_topAuthors srv) [(client, booksCollection (Aggregate p_topAuthors))]"
proof -
  have "makes (s_topAuthors srv)
          ([] @ ([(client, booksCollection (Aggregate p_topAuthors))] @ []) @ [])"
    unfolding s_topAuthors_def aggregate_def
    by (intro makes_intros makes_await makes_if makes_case_option) (simp_all split: prod.splits)
  then show ?thesis by simp
qed

lemma makes_s_avgPriceByGenre: "makes (s_avgPriceByGenre srv) [(client, booksCollection (Aggregate p_avgPriceByGenre))]"
proof -
  have "makes (s_avgPriceByGenre srv)
          ([] @ ([(client, booksCollection (Aggregate p_avgPriceByGenre))] @ ([] @ [] @ [])) @ [])"
    unfolding s_avgPriceByGenre_def aggregate_def
    by (intro makes_intros makes_await makes_if makes_case_option) (simp_all split: prod.splits)
  then show ?thesis by simp
qed

lemma makes_s_topAuthorByBooks: "makes (s_topAuthorByBooks srv) [(client, booksCollection (Aggregate p_topAuthorByBooks))]"
proof -
  have "makes (s_topAuthorByBooks srv)
          ([] @ ([(client, booksCollection (Aggregate p_topAuthorByBooks))] @ []) @ [])"
    unfolding s_topAuthorByBooks_def aggregate_def
    by (intro makes_intros makes_await makes_if makes_case_option) (simp_all split: prod.splits)
  then show ?thesis by simp
qed

lemma makes_s_booksByDecade: "makes (s_booksByDecade srv) [(client, booksCollection (Aggregate p_booksByDecade))]"
proof -
  have "makes (s_booksByDecade srv)
          ([] @ ([(client, booksCollection (Aggregate p_booksByDecade))] @ ([] @ [] @ [])) @ [])"
    unfolding s_booksByDecade_def aggregate_def
    by (intro makes_intros makes_await makes_if makes_case_option) (simp_all split: prod.splits)
  then show ?thesis by simp
qed

lemma makes_s_index_title: "makes (s_index_title srv) [(client, booksCollection (CreateIndex [(''title'', 1)]))]"
proof -
  have "makes (s_index_title srv)
          ([] @ [(client, booksCollection (CreateIndex [(''title'', 1)]))] @ [] @ [])"
    unfolding s_index_title_def createIndex_def
    by (intro makes_intros makes_await makes_if makes_case_option) (simp_all split: prod.splits)
  then show ?thesis by simp
qed

lemma makes_s_index_compound: "makes (s_index_compound srv) [(client, booksCollection (CreateIndex [(''author'', 1), (''published_year'', 1)]))]"
proof -
  have "makes (s_index_compound srv)
          ([] @ [(client, booksCollection (CreateIndex [(''author'', 1), (''published_year'', 1)]))] @ [] @ [])"
    unfolding s_index_compound_def createIndex_def
    by (intro makes_intros makes_await makes_if makes_case_option) (simp_all split: prod.splits)
  then show ?thesis by simp
qed

lemma makes_s_indexes: "makes (s_indexes srv) [(client, booksCollection Indexes)]"
proof -
  have "makes (s_indexes srv)
          ([(client, booksCollection Indexes)] @ [])"
    unfolding s_indexes_def list_indexes_def
    by (intro makes_intros makes_await makes_if makes_case_option) (simp_all split: prod.splits)
  then show ?thesis by simp
qed

lemma makes_s_booksAsc: "makes (s_booksAsc srv) [(client, booksCollection (Find q_booksAsc))]"
proof -
  have "makes (s_booksAsc srv)
          ([] @ ([(client, booksCollection (Find q_booksAsc))] @ ([] @ [] @ [])) @ [])"
    unfolding s_booksAsc_def find_docs_def
    by (intro makes_intros makes_await makes_if makes_case_option) (simp_all split: prod.splits)
  then show ?thesis by simp
qed

lemma makes_s_booksDesc: "makes (s_booksDesc srv) [(client, booksCollection (Find q_booksDesc))]"
proof -
  have "makes (s_booksDesc srv)
          ([(client, booksCollection (Find q_booksDesc))] @ ([] @ [] @ []))"
    unfolding s_booksDesc_def find_docs_def
    by (intro makes_intros makes_await makes_if makes_case_option) (simp_all split: prod.splits)
  then show ?thesis by simp
qed

lemma makes_s_indexedExplain: "makes (s_indexedExplain srv) [(client, booksCollection (Explain q_indexed ''executionStats''))]"
proof -
  have "makes (s_indexedExplain srv)
          ([] @ ([(client, booksCollection (Explain q_indexed ''executionStats''))] @ ([] @ [] @ [])) @ [])"
    unfolding s_indexedExplain_def explain_def
    by (intro makes_intros makes_await makes_if makes_case_option) (simp_all split: prod.splits)
  then show ?thesis by simp
qed

lemma makes_s_nonIndexedExplain: "makes (s_nonIndexedExplain srv) [(client, booksCollection (Explain q_nonIndexed ''executionStats''))]"
proof -
  have "makes (s_nonIndexedExplain srv)
          ([(client, booksCollection (Explain q_nonIndexed ''executionStats''))] @ ([] @ [] @ []))"
    unfolding s_nonIndexedExplain_def explain_def
    by (intro makes_intros makes_await makes_if makes_case_option) (simp_all split: prod.splits)
  then show ?thesis by simp
qed

lemma makes_rest: "makes (seq (tl (try_steps srv))) (tl requests)"
proof -
  have "makes (seq (tl (try_steps srv)))
          ([] @
           [(client, booksCollection (Find q_fantasyBooks))] @
           [(client, booksCollection (UpdateMany f_fantasy (MulPrice lit_1_1)))] @
           [(client, booksCollection (DeleteMany f_old))] @
           [] @
           [(client, booksCollection (Find q_inStockAfter1950))] @
           [(client, booksCollection (Find q_top3Books))] @
           [(client, booksCollection (Find q_page1))] @
           [(client, booksCollection (Find q_page2))] @
           [(client, booksCollection (Aggregate p_topAuthors))] @
           [(client, booksCollection (Aggregate p_avgPriceByGenre))] @
           [(client, booksCollection (Aggregate p_topAuthorByBooks))] @
           [(client, booksCollection (Aggregate p_booksByDecade))] @
           [(client, booksCollection (CreateIndex [(''title'', 1)]))] @
           [(client, booksCollection (CreateIndex [(''author'', 1), (''published_year'', 1)]))] @
           [(client, booksCollection Indexes)] @
           [(client, booksCollection (Find q_booksAsc))] @
           [(client, booksCollection (Find q_booksDesc))] @
           [(client, booksCollection (Explain q_indexed ''executionStats''))] @
           [(client, booksCollection (Explain q_nonIndexed ''executionStats''))] @
           [] @ [])"
    unfolding try_steps_def list.sel
    by (intro makes_seq_Cons makes_seq_Nil makes_console_log
          makes_s_fantasyBooks makes_s_updateFantasy makes_s_deleteOld makes_s_inStockAfter1950 makes_s_top3Books makes_s_page1 makes_s_page2 makes_s_topAuthors makes_s_avgPriceByGenre makes_s_topAuthorByBooks makes_s_booksByDecade makes_s_index_title makes_s_index_compound makes_s_indexes makes_s_booksAsc makes_s_booksDesc makes_s_indexedExplain makes_s_nonIndexedExplain)
  then show ?thesis by (simp add: requests_def)
qed

lemma try_steps_Cons: "try_steps srv = s_connect srv # tl (try_steps srv)"
  by (simp add: try_steps_def)

lemma requests_Cons: "requests = (client, Connect) # tl requests"
  by (simp add: requests_def)

lemma makes_try_steps: "makes (seq (try_steps srv)) requests"
proof -
  have "makes (seq (s_connect srv # tl (try_steps srv))) ([(client, Connect)] @ tl requests)"
    by (intro makes_seq_Cons makes_s_connect makes_rest)
  then show ?thesis using try_steps_Cons [of srv] requests_Cons by simp
qed

lemma seq_append_fail:
  "seq pre w = (Inr (), w0) \<Longrightarrow> s w0 = (Inl e, w1) \<Longrightarrow> seq (pre @ s # post) w = (Inl e, w1)"
proof (induction pre arbitrary: w)
  case Nil
  then show ?case by (simp add: ret_def bind_def)
next
  case (Cons a pre)
  then show ?case by (auto simp add: bind_def split: prod.splits sum.splits)
qed

lemma seq_fail_split:
  "seq ss w = (Inl e, w1) \<Longrightarrow>
     \<exists>pre s post w0. ss = pre @ s # post \<and> seq pre w = (Inr (), w0) \<and> s w0 = (Inl e, w1)"
proof (induction ss arbitrary: w)
  case Nil
  then show ?case by (simp add: ret_def)
next
  case (Cons a ss)
  obtain r w' where a: "a w = (r, w')" by (cases "a w")
  show ?case
  proof (cases r)
    case (Inl e')
    then have "seq [] w = (Inr (), w) \<and> a w = (Inl e, w1)"
      using Cons.prems a by (simp add: bind_def ret_def)
    then show ?thesis by (metis append_Nil)
  next
    case (Inr u)
    then have "seq ss w' = (Inl e, w1)" using Cons.prems a by (simp add: bind_def)
    from Cons.IH [OF this] obtain pre s post w0 where
      "ss = pre @ s # post" "seq pre w' = (Inr (), w0)" "s w0 = (Inl e, w1)" by blast
    then have "a # ss = (a # pre) @ s # post \<and> seq (a # pre) w = (Inr (), w0) \<and> s w0 = (Inl e, w1)"
      using a Inr by (simp add: bind_def)
    then show ?thesis by blast
  qed
qed

lemma finally_block_trace:
  "trace (snd (finally_block srv w)) =
     trace w @ [Call client Close] @ (if fault srv 19 = None then [Log [S ''Connection closed.'']] else [])"
  by (cases "fault srv 19")
    (simp_all add: finally_block_def client_close_def await_def bind_def console_log_def ret_def)

lemma executeQueries_trace:
  assumes "seq (try_steps srv) w = (r, w1)"
  shows "trace (snd (executeQueries srv w)) =
     trace w1 @ (case r of Inl e \<Rightarrow> [LogError [S ''Error occurred:'', E e]] | Inr u \<Rightarrow> []) @
     [Call client Close] @ (if fault srv 19 = None then [Log [S ''Connection closed.'']] else [])"
  using assms
  by (cases r) (simp_all add: executeQueries_def catch_error_def console_error_def finally_block_trace)

lemma try_steps_calls:
  assumes "seq (try_steps srv) w = (r, w1)"
  shows "\<exists>evs n. trace w1 = trace w @ evs \<and> calls_of evs = take n requests \<and>
           (\<forall>u. r = Inr u \<longrightarrow> calls_of evs = requests)"
  using makes_try_steps [of srv] assms unfolding makes_def
  by (metis fst_conv snd_conv)

lemma fault_failing_at [simp]: "fault (failing_at k e) j = (if j = k then Some e else None)"
  by (simp add: failing_at_def ex_server_def)

lemma fault_never_failing [simp]: "fault never_failing j = None"
  by (simp add: never_failing_def ex_server_def)


lemma filter_take_nil: "filter P xs = [] \<Longrightarrow> filter P (take n xs) = []"
  by (metis filter_empty_conv in_set_takeD)


lemma s_connect_ok:
  "fault srv 0 = None \<Longrightarrow>
     s_connect srv w =
       (Inr (), w\<lparr>open_conns := client # open_conns w,
                  trace := trace w @ [Log [S ''Attempting to connect to MongoDB Atlas...''],
                                      Call client Connect,
                                      Log [S ''Successfully connected to MongoDB Atlas!'']]\<rparr>)"
  by (simp add: s_connect_def client_connect_def await_def bind_def console_log_def ret_def)

lemma s_connect_fails:
  "fault srv 0 = Some e \<Longrightarrow>
     s_connect srv w =
       (Inl e, w\<lparr>trace := trace w @ [Log [S ''Attempting to connect to MongoDB Atlas...''],
                                        Call client Connect]\<rparr>)"
  by (simp add: s_connect_def client_connect_def await_def bind_def console_log_def)

lemma try_first_call:
  "\<exists>r w1 evs m. seq (try_steps srv) w = (r, w1) \<and>
      trace w1 = trace w @ evs \<and>
      calls_of evs = (client, Connect) # take m (tl requests) \<and>
      (\<forall>u. r = Inr u \<longrightarrow> calls_of evs = requests)"
proof (cases "fault srv 0")
  case None
  let ?w' = "w\<lparr>open_conns := client # open_conns w,
                  trace := trace w @ [Log [S ''Attempting to connect to MongoDB Atlas...''],
                                      Call client Connect,
                                      Log [S ''Successfully connected to MongoDB Atlas!'']]\<rparr>"
  obtain r w1 where r: "seq (tl (try_steps srv)) ?w' = (r, w1)"
    by (cases "seq (tl (try_steps srv)) ?w'")
  from makes_rest [of srv] obtain evs m where
    evs: "trace w1 = trace ?w' @ evs" "calls_of evs = take m (tl requests)"
      "\<forall>u. r = Inr u \<longrightarrow> calls_of evs = tl requests"
    unfolding makes_def using r by (metis fst_conv snd_conv)
  have "seq (s_connect srv # tl (try_steps srv)) w = (r, w1)"
    using r by (simp add: bind_def s_connect_ok [OF None])
  then have t: "seq (try_steps srv) w = (r, w1)"
    using try_steps_Cons [of srv] by simp
  let ?evs = "[Log [S ''Attempting to connect to MongoDB Atlas...''], Call client Connect,
               Log [S ''Successfully connected to MongoDB Atlas!'']] @ evs"
  have "trace w1 = trace w @ ?evs" using evs(1) by simp
  moreover have "calls_of ?evs = (client, Connect) # take m (tl requests)"
    using evs(2) by simp
  moreover have "\<forall>u. r = Inr u \<longrightarrow> calls_of ?evs = requests"
    using evs(3) requests_Cons by simp
  ultimately show ?thesis using t by blast
next
  case (Some e)
  let ?w1 = "w\<lparr>trace := trace w @ [Log [S ''Attempting to connect to MongoDB Atlas...''],
                                      Call client Connect]\<rparr>"
  have "seq ([] @ s_connect srv # tl (try_steps srv)) w = (Inl e, ?w1)"
    by (rule seq_append_fail) (simp_all add: ret_def s_connect_fails [OF Some])
  then have t: "seq (try_steps srv) w = (Inl e, ?w1)"
    using try_steps_Cons [of srv] by simp
  have "trace ?w1 = trace w @ [Log [S ''Attempting to connect to MongoDB Atlas...''],
                                      Call client Connect]" by simp
  moreover have "calls_of [Log [S ''Attempting to connect to MongoDB Atlas...''],
                                      Call client Connect] = (client, Connect) # take 0 (tl requests)"
    by simp
  ultimately show ?thesis using t by blast
qed

lemma run_calls:
  "\<exists>m. calls_of (new_events w (snd (executeQueries srv w))) =
          (client, Connect) # take m (tl requests) @ [(client, Close)]"
proof -
  from try_first_call [of srv w] obtain r w1 evs m where
    t: "seq (try_steps srv) w = (r, w1)" and evs: "trace w1 = trace w @ evs"
      "calls_of evs = (client, Connect) # take m (tl requests)" by blast
  let ?tail = "(case r of Inl e \<Rightarrow> [LogError [S ''Error occurred:'', E e]] | Inr u \<Rightarrow> []) @
     [Call client Close] @ (if fault srv 19 = None then [Log [S ''Connection closed.'']] else [])"
  have ne: "new_events w (snd (executeQueries srv w)) = evs @ ?tail"
    using executeQueries_trace [OF t] evs(1) by (simp add: new_events_def)
  have ct: "calls_of ?tail = [(client, Close)]"
    by (cases r) simp_all
  have "calls_of (new_events w (snd (executeQueries srv w))) =
          (client, Connect) # take m (tl requests) @ [(client, Close)]"
    using ct evs(2) by (simp only: ne calls_of_append append_Cons)
  then show ?thesis ..
qed

lemma conns_of_requests: "list_all (\<lambda>cr. fst cr = client) requests"
  by (simp add: requests_def)

lemma connects_of_rest: "filter (\<lambda>cr. snd cr = Connect) (tl requests) = []"
  by (simp add: requests_def booksCollection_def)

lemma connectDB_trace:
  "new_events w (snd (connectDB env srv w)) =
     Call (Mongoose (env ''MONGODB_URI'')) Connect #
     (if fault srv 0 = None then [Log [S ''connected to mongodb'']] else [])"
  by (cases "fault srv 0")
    (simp_all add: connectDB_def await_def bind_def console_log_def new_events_def)

lemma connectDB_conns:
  "open_conns (snd (connectDB env srv w)) =
     (if fault srv 0 = None then Mongoose (env ''MONGODB_URI'') # open_conns w else open_conns w)"
  by (cases "fault srv 0")
    (simp_all add: connectDB_def await_def bind_def console_log_def)

subsection \<open>The script completes when no call fails\<close>

lemma returns_ret: "P x \<Longrightarrow> returns (ret x) P"
  by (simp add: returns_def ret_def)

lemma returns_console_log: "returns (console_log ps) (\<lambda>_. True)"
  by (simp add: returns_def console_log_def)

lemma returns_bind:
  assumes "returns m P" and "\<And>x. P x \<Longrightarrow> returns (f x) Q"
  shows "returns (bind m f) Q"
  unfolding returns_def
proof
  fix w :: world
  from assms(1) obtain x w' where m: "m w = (Inr x, w')" "P x"
    unfolding returns_def by blast
  from assms(2) [OF m(2)] obtain y w'' where "f x w' = (Inr y, w'')" "Q y"
    unfolding returns_def by blast
  then show "\<exists>y w''. bind m f w = (Inr y, w'') \<and> Q y"
    using m(1) by (simp add: bind_def)
qed

lemma returns_weaken: "returns a P \<Longrightarrow> (\<And>x. P x \<Longrightarrow> Q x) \<Longrightarrow> returns a Q"
  unfolding returns_def by blast

lemma returns_seq: "(\<And>s. s \<in> set ss \<Longrightarrow> returns s (\<lambda>_. True)) \<Longrightarrow> returns (seq ss) (\<lambda>_. True)"
proof (induction ss)
  case Nil
  then show ?case by (simp add: returns_ret)
next
  case (Cons s ss)
  show ?case
    unfolding seq.simps
    by (rule returns_bind [where P = "\<lambda>_. True"]) (use Cons in auto)
qed

lemma returns_forEach:
  "(\<And>x. x \<in> set xs \<Longrightarrow> returns (f x) (\<lambda>_. True)) \<Longrightarrow> returns (forEach xs f) (\<lambda>_. True)"
proof (induction xs)
  case Nil
  then show ?case by (simp add: returns_ret)
next
  case (Cons x xs)
  show ?case
    unfolding forEach.simps
    by (rule returns_bind [where P = "\<lambda>_. True"]) (use Cons in auto)
qed

lemma returns_await:
  assumes "fault srv k = None" and "\<And>w. P (fst (eff w))"
  shows "returns (await srv k c r eff) P"
  unfolding returns_def
proof
  fix w :: world
  let ?w1 = "w\<lparr>trace := trace w @ [Call c r]\<rparr>"
  obtain x w2 where e: "eff ?w1 = (x, w2)" by (cases "eff ?w1")
  then have "P x" using assms(2) [of ?w1] by simp
  then show "\<exists>x w'. await srv k c r eff w = (Inr x, w') \<and> P x"
    using assms(1) e by (simp add: await_def)
qed

lemma returns_book_line: "returns (book_line d) (\<lambda>_. True)"
  by (simp add: book_line_def returns_console_log)

lemma returns_price_line:
  assumes "key_of ''avgPrice'' d = VNum x"
  shows "returns (price_line d) (\<lambda>_. True)"
  unfolding price_line_def
  by (rule returns_bind [where P = "\<lambda>_. True"])
    (simp_all add: assms returns_ret returns_console_log)

lemma set_insort_by [simp]: "set (insort_by le x ys) = insert x (set ys)"
  by (induction ys) auto

lemma set_sort_by [simp]: "set (sort_by le xs) = set xs"
  by (induction xs) (simp_all add: sort_by_def)

lemma set_sort_docs [simp]: "set (sort_docs spec ds) = set ds"
  by (induction spec) (simp_all add: sort_docs_def)

lemma length_insort_by [simp]: "length (insort_by le x ys) = Suc (length ys)"
  by (induction ys) auto

lemma length_sort_by [simp]: "length (sort_by le xs) = length xs"
  by (induction xs) (simp_all add: sort_by_def)

lemma length_sort_docs [simp]: "length (sort_docs spec ds) = length ds"
  by (induction spec) (simp_all add: sort_docs_def)

lemma key_of_doc_of [simp]:
  "key_of ''title'' (doc_of b) = VStr (title b)"
  "key_of ''author'' (doc_of b) = VStr (author b)"
  "key_of ''genre'' (doc_of b) = VStr (genre b)"
  "key_of ''price'' (doc_of b) = VNum (price b)"
  "key_of ''published_year'' (doc_of b) = VInt (published_year b)"
  "key_of ''in_stock'' (doc_of b) = VBool (in_stock b)"
  by (simp_all add: key_of_def doc_of_def)

lemma numbers_of_price: "numbers_of ''price'' (filter P (map doc_of bs)) = map price (filter (P \<circ> doc_of) bs)"
  by (induction bs) (simp_all add: numbers_of_def)

lemma set_group_keys [simp]: "set (group_keys k ds) = gkey_val k ` set ds"
  by (simp add: group_keys_def)

lemma group_rows_avg:
  assumes "r \<in> set (group_rows av k [(''avgPrice'', Avg ''price''), (''totalBooks'', Count)] (map doc_of bs))"
  shows "\<exists>x. key_of ''avgPrice'' r = VNum x"
proof -
  let ?ds = "map doc_of bs"
  from assms obtain key where key: "key \<in> gkey_val k ` set ?ds"
    and r: "r = [(''_id'', key),
                 (''avgPrice'', acc_val av (Avg ''price'') (filter (\<lambda>d. gkey_val k d = key) ?ds)),
                 (''totalBooks'', acc_val av Count (filter (\<lambda>d. gkey_val k d = key) ?ds))]"
    by (auto simp add: group_rows_def)
  from key obtain b where b: "b \<in> set bs" "gkey_val k (doc_of b) = key" by auto
  then have "filter ((\<lambda>d. gkey_val k d = key) \<circ> doc_of) bs \<noteq> []"
    by (auto simp add: filter_empty_conv)
  then have "numbers_of ''price'' (filter (\<lambda>d. gkey_val k d = key) ?ds) \<noteq> []"
    by (simp add: numbers_of_price)
  then obtain x where "acc_val av (Avg ''price'') (filter (\<lambda>d. gkey_val k d = key) ?ds) = VNum x"
    by (cases "numbers_of ''price'' (filter (\<lambda>d. gkey_val k d = key) ?ds)") auto
  then show ?thesis by (simp add: r key_of_def)
qed

lemma topAuthors_numeric:
  "r \<in> set (run_pipeline av p_topAuthors bs) \<Longrightarrow> \<exists>x. key_of ''avgPrice'' r = VNum x"
  by (auto simp add: run_pipeline_def p_topAuthors_def dest!: in_set_takeD group_rows_avg)

lemma avgPriceByGenre_numeric:
  "r \<in> set (run_pipeline av p_avgPriceByGenre bs) \<Longrightarrow> \<exists>x. key_of ''avgPrice'' r = VNum x"
  by (auto simp add: run_pipeline_def p_avgPriceByGenre_def dest!: group_rows_avg)

lemma returns_bind_any:
  "returns m (\<lambda>_. True) \<Longrightarrow> (\<And>x. returns (f x) Q) \<Longrightarrow> returns (bind m f) Q"
  by (rule returns_bind [where P = "\<lambda>_. True"]) auto

lemma returns_await_any: "fault srv k = None \<Longrightarrow> returns (await srv k c r eff) (\<lambda>_. True)"
  by (rule returns_await) auto

lemma returns_forEach_any: "(\<And>x. returns (f x) (\<lambda>_. True)) \<Longrightarrow> returns (forEach xs f) (\<lambda>_. True)"
  by (rule returns_forEach) auto

lemma returns_unit: "returns (ret x) (\<lambda>_. True)"
  by (simp add: returns_ret)

lemma returns_topAuthorByBooks_print:
  "returns (if length rows > 0 then
                 (case at rows 0 of
                    None \<Rightarrow> throw (TypeError ''_id'')
                  | Some author' \<Rightarrow>
                      console_log [S ''Author with Most Books: '', V (key_of ''_id'' author'),
                                   S '' ('', V (key_of ''bookCount'' author'), S '' books)''])
               else console_log [S ''No authors found in the collection.'']) (\<lambda>_. True)"
  by (cases rows) (simp_all add: at_def returns_console_log)

lemmas returns_intros =
  returns_bind_any returns_await_any returns_forEach_any returns_console_log
  returns_book_line returns_unit returns_topAuthorByBooks_print

lemma returns_price_lines:
  "\<forall>r\<in>set rows. \<exists>x. key_of ''avgPrice'' r = VNum x \<Longrightarrow>
     returns (forEach rows price_line) (\<lambda>_. True)"
  by (rule returns_forEach) (auto intro: returns_price_line)

lemma returns_s_topAuthors: "fault srv 8 = None \<Longrightarrow> returns (s_topAuthors srv) (\<lambda>_. True)"
  unfolding s_topAuthors_def aggregate_def seq.simps
  apply (rule returns_bind_any)
   apply (rule returns_console_log)
  apply (rule returns_bind_any)
   apply (rule returns_bind [where P = "\<lambda>rows. \<forall>r\<in>set rows. \<exists>x. key_of ''avgPrice'' r = VNum x"])
    apply (rule returns_await)
     apply (simp_all add: topAuthors_numeric returns_price_lines returns_unit)
  done

lemma returns_s_avgPriceByGenre: "fault srv 9 = None \<Longrightarrow> returns (s_avgPriceByGenre srv) (\<lambda>_. True)"
  unfolding s_avgPriceByGenre_def aggregate_def seq.simps
  apply (rule returns_bind_any)
   apply (rule returns_console_log)
  apply (rule returns_bind_any)
   apply (rule returns_bind [where P = "\<lambda>rows. \<forall>r\<in>set rows. \<exists>x. key_of ''avgPrice'' r = VNum x"])
    apply (rule returns_await)
     apply (simp_all add: avgPriceByGenre_numeric)
   apply (intro returns_bind_any returns_console_log returns_unit returns_price_lines)
   apply (simp_all add: returns_unit)
  done

lemma returns_s_connect: "fault srv 0 = None \<Longrightarrow> returns (s_connect srv) (\<lambda>_. True)"
  unfolding s_connect_def client_connect_def seq.simps
  by (intro returns_intros) simp_all

lemma returns_s_fantasyBooks: "fault srv 1 = None \<Longrightarrow> returns (s_fantasyBooks srv) (\<lambda>_. True)"
  unfolding s_fantasyBooks_def find_docs_def seq.simps
  by (intro returns_intros) simp_all

lemma returns_s_updateFantasy: "fault srv 2 = None \<Longrightarrow> returns (s_updateFantasy srv) (\<lambda>_. True)"
  unfolding s_updateFantasy_def updateMany_def seq.simps
  by (intro returns_intros) simp_all

lemma returns_s_deleteOld: "fault srv 3 = None \<Longrightarrow> returns (s_deleteOld srv) (\<lambda>_. True)"
  unfolding s_deleteOld_def deleteMany_def seq.simps
  by (intro returns_intros) simp_all

lemma returns_s_inStockAfter1950: "fault srv 4 = None \<Longrightarrow> returns (s_inStockAfter1950 srv) (\<lambda>_. True)"
  unfolding s_inStockAfter1950_def find_docs_def seq.simps
  by (intro returns_intros) simp_all

lemma returns_s_top3Books: "fault srv 5 = None \<Longrightarrow> returns (s_top3Books srv) (\<lambda>_. True)"
  unfolding s_top3Books_def find_docs_def seq.simps
  by (intro returns_intros) simp_all

lemma returns_s_page1: "fault srv 6 = None \<Longrightarrow> returns (s_page1 srv) (\<lambda>_. True)"
  unfolding s_page1_def find_docs_def seq.simps
  by (intro returns_intros) simp_all

lemma returns_s_page2: "fault srv 7 = None \<Longrightarrow> returns (s_page2 srv) (\<lambda>_. True)"
  unfolding s_page2_def find_docs_def seq.simps
  by (intro returns_intros) simp_all

lemma returns_s_topAuthorByBooks: "fault srv 10 = None \<Longrightarrow> returns (s_topAuthorByBooks srv) (\<lambda>_. True)"
  unfolding s_topAuthorByBooks_def aggregate_def seq.simps
  by (intro returns_intros) simp_all

lemma returns_s_booksByDecade: "fault srv 11 = None \<Longrightarrow> returns (s_booksByDecade srv) (\<lambda>_. True)"
  unfolding s_booksByDecade_def aggregate_def seq.simps
  by (intro returns_intros) simp_all

lemma returns_s_index_title: "fault srv 12 = None \<Longrightarrow> returns (s_index_title srv) (\<lambda>_. True)"
  unfolding s_index_title_def createIndex_def seq.simps
  by (intro returns_intros) simp_all

lemma returns_s_index_compound: "fault srv 13 = None \<Longrightarrow> returns (s_index_compound srv) (\<lambda>_. True)"
  unfolding s_index_compound_def createIndex_def seq.simps
  by (intro returns_intros) simp_all

lemma returns_s_indexes: "fault srv 14 = None \<Longrightarrow> returns (s_indexes srv) (\<lambda>_. True)"
  unfolding s_indexes_def list_indexes_def seq.simps
  by (intro returns_intros) simp_all

lemma returns_s_booksAsc: "fault srv 15 = None \<Longrightarrow> returns (s_booksAsc srv) (\<lambda>_. True)"
  unfolding s_booksAsc_def find_docs_def seq.simps
  by (intro returns_intros) simp_all

lemma returns_s_booksDesc: "fault srv 16 = None \<Longrightarrow> returns (s_booksDesc srv) (\<lambda>_. True)"
  unfolding s_booksDesc_def find_docs_def seq.simps
  by (intro returns_intros) simp_all

lemma returns_s_indexedExplain: "fault srv 17 = None \<Longrightarrow> returns (s_indexedExplain srv) (\<lambda>_. True)"
  unfolding s_indexedExplain_def explain_def seq.simps
  by (intro returns_intros) simp_all

lemma returns_s_nonIndexedExplain: "fault srv 18 = None \<Longrightarrow> returns (s_nonIndexedExplain srv) (\<lambda>_. True)"
  unfolding s_nonIndexedExplain_def explain_def seq.simps
  by (intro returns_intros) simp_all

lemma completes:
  assumes "\<forall>k<19. fault srv k = None"
  shows "\<exists>w1. seq (try_steps srv) w = (Inr (), w1)"
proof -
  have "returns (seq (try_steps srv)) (\<lambda>_. True)"
    unfolding try_steps_def seq.simps
    by (intro returns_bind_any returns_console_log returns_unit
         returns_s_connect returns_s_fantasyBooks returns_s_updateFantasy returns_s_deleteOld returns_s_inStockAfter1950 returns_s_top3Books returns_s_page1 returns_s_page2 returns_s_topAuthors returns_s_avgPriceByGenre returns_s_topAuthorByBooks returns_s_booksByDecade returns_s_index_title returns_s_index_compound returns_s_indexes returns_s_booksAsc returns_s_booksDesc returns_s_indexedExplain returns_s_nonIndexedExplain)
       (simp_all add: assms)
  then show ?thesis unfolding returns_def by auto
qed

subsection \<open>The reads of a completed run\<close>

lemma find_queries_requests:
  "find_queries requests =
     [q_fantasyBooks, q_inStockAfter1950, q_top3Books, q_page1, q_page2, q_booksAsc, q_booksDesc]"
  by (simp add: requests_def booksCollection_def)

lemma paginated_simps:
  "\<not> paginated q_fantasyBooks" "\<not> paginated q_inStockAfter1950" "\<not> paginated q_top3Books"
  "paginated q_page1" "paginated q_page2" "\<not> paginated q_booksAsc" "\<not> paginated q_booksDesc"
  by (simp_all add: paginated_def q_fantasyBooks_def q_inStockAfter1950_def q_top3Books_def
      q_page1_def q_page2_def q_booksAsc_def q_booksDesc_def)

lemma find_queries_append [simp]: "find_queries (xs @ ys) = find_queries xs @ find_queries ys"
  by (induction xs rule: find_queries.induct) simp_all

lemma completed_run_calls:
  assumes "\<forall>k<19. fault srv k = None"
  shows "calls_of (new_events w (snd (executeQueries srv w))) = requests @ [(client, Close)]"
proof -
  from completes [OF assms] obtain w1 where t: "seq (try_steps srv) w = (Inr (), w1)" ..
  from try_steps_calls [OF t] obtain evs where
    evs: "trace w1 = trace w @ evs" "calls_of evs = requests" by blast
  have "new_events w (snd (executeQueries srv w)) =
          evs @ [Call client Close] @
          (if fault srv 19 = None then [Log [S ''Connection closed.'']] else [])"
    using executeQueries_trace [OF t] evs(1) by (simp add: new_events_def)
  then show ?thesis using evs(2) by simp
qed

lemma completed_run_reads:
  assumes "\<forall>k<19. fault srv k = None"
  shows "find_queries (calls_of (new_events w (snd (executeQueries srv w)))) =
           [q_fantasyBooks, q_inStockAfter1950, q_top3Books, q_page1, q_page2, q_booksAsc, q_booksDesc]"
  by (simp add: completed_run_calls [OF assms] find_queries_requests)

subsection \<open>The writing steps\<close>

lemma lit_1_1_nearest: "lit_1_1 = Fin m e \<Longrightarrow> e = - 51 \<and> 4 * \<bar>10 * m - 11 * 2 ^ 51\<bar> \<le> 10"
  by (simp add: lit_1_1_def)

lemma matches_fantasy [simp]: "matches f_fantasy (doc_of b) = (genre b = ''Fantasy'')"
  by (auto simp add: matches_def f_fantasy_def doc_of_def)

lemma matches_old [simp]: "matches f_old (doc_of b) = (published_year b < 1950)"
  by (auto simp add: matches_def f_old_def doc_of_def)

lemma dbl_values:
  "dbl 10 = Fin 5 1" "dbl 20 = Fin 5 2" "dbl 30 = Fin 15 1"
  "dbl 11 = Fin 11 0" "dbl 22 = Fin 11 1" "dbl 33 = Fin 33 0"
  by code_simp+

lemma ten_percent:
  "dmul (dbl 10) lit_1_1 = dbl 11" "dmul (dbl 20) lit_1_1 = dbl 22" "dmul (dbl 30) lit_1_1 = dbl 33"
  "dbl 11 \<noteq> dbl 10" "dbl 22 \<noteq> dbl 20" "dbl 33 \<noteq> dbl 30"
  by code_simp+

lemma s_updateFantasy_ok:
  "fault srv 2 = None \<Longrightarrow>
     s_updateFantasy srv w =
       (Inr (), w\<lparr>books := updateMany_books f_fantasy (MulPrice lit_1_1) (books w),
                  trace := trace w @
                    [Call client (booksCollection (UpdateMany f_fantasy (MulPrice lit_1_1))),
                     Log [S ''Updated '', N (modifiedCount f_fantasy (MulPrice lit_1_1) (books w)),
                          S '' Fantasy book prices by 10%.'']]\<rparr>)"
  by (simp add: s_updateFantasy_def updateMany_def await_def bind_def console_log_def)

lemma s_deleteOld_ok:
  "fault srv 3 = None \<Longrightarrow>
     s_deleteOld srv w =
       (Inr (), w\<lparr>books := deleteMany_books f_old (books w),
                  trace := trace w @
                    [Call client (booksCollection (DeleteMany f_old)),
                     Log [S ''Deleted '', N (deletedCount f_old (books w)),
                          S '' books published before 1950.'']]\<rparr>)"
  by (simp add: s_deleteOld_def deleteMany_def await_def bind_def console_log_def)

lemma updateMany_nth:
  "i < length bs \<Longrightarrow>
     updateMany_books f_fantasy (MulPrice lit_1_1) bs ! i =
       (if genre (bs ! i) = ''Fantasy'' then (bs ! i)\<lparr>price := dmul (price (bs ! i)) lit_1_1\<rparr>
        else bs ! i)"
  by (simp add: updateMany_books_def)

lemma modifiedCount_card:
  "modifiedCount f_fantasy (MulPrice lit_1_1) bs =
     card {i. i < length bs \<and> updateMany_books f_fantasy (MulPrice lit_1_1) bs ! i \<noteq> bs ! i}"
proof -
  have "{i. i < length bs \<and> updateMany_books f_fantasy (MulPrice lit_1_1) bs ! i \<noteq> bs ! i} =
        {i. i < length bs \<and> (matches f_fantasy (doc_of (bs ! i)) \<and>
                               apply_update (MulPrice lit_1_1) (bs ! i) \<noteq> bs ! i)}"
    by (auto simp add: updateMany_nth split: if_splits)
  then show ?thesis
    by (simp add: modifiedCount_def length_filter_conv_card)
qed

subsection \<open>The steps that leave the collection as it is\<close>

lemma keeps_ret: "keeps (ret x)"
  by (simp add: keeps_def ret_def)

lemma keeps_throw: "keeps (throw e)"
  by (simp add: keeps_def throw_def)

lemma keeps_console_log: "keeps (console_log ps)"
  by (simp add: keeps_def console_log_def)

lemma keeps_await:
  assumes "\<And>w. books (snd (eff w)) = books w"
  shows "keeps (await srv k c r eff)"
  unfolding keeps_def
proof
  fix w :: world
  show "books (snd (await srv k c r eff w)) = books w"
    using assms [of "w\<lparr>trace := trace w @ [Call c r]\<rparr>"]
    by (cases "fault srv k") (auto simp add: await_def split: prod.splits)
qed

lemma keeps_bind:
  assumes "keeps m" and "\<And>x. keeps (f x)"
  shows "keeps (bind m f)"
  unfolding keeps_def
proof
  fix w :: world
  obtain r w1 where m: "m w = (r, w1)" by (cases "m w")
  then have b: "books w1 = books w" using assms(1) unfolding keeps_def by (metis snd_conv)
  show "books (snd (bind m f w)) = books w"
  proof (cases r)
    case (Inl e)
    then show ?thesis using m b by (simp add: bind_def)
  next
    case (Inr x)
    then have "bind m f w = f x w1" using m by (simp add: bind_def)
    then show ?thesis using assms(2) [of x] b unfolding keeps_def by simp
  qed
qed

lemma keeps_forEach: "(\<And>x. keeps (f x)) \<Longrightarrow> keeps (forEach xs f)"
  by (induction xs) (simp_all add: keeps_ret keeps_bind)

lemma keeps_toFixed: "keeps (toFixed v n)"
  by (cases v) (simp_all add: keeps_ret keeps_throw)

lemma keeps_if: "keeps a \<Longrightarrow> keeps b \<Longrightarrow> keeps (if c then a else b)"
  by simp

lemma keeps_case_option:
  "keeps a \<Longrightarrow> (\<And>x. keeps (f x)) \<Longrightarrow> keeps (case t of None \<Rightarrow> a | Some x \<Rightarrow> f x)"
  by (cases t) auto

lemmas keeps_intros =
  keeps_bind keeps_await keeps_forEach keeps_console_log keeps_ret keeps_throw keeps_toFixed
  keeps_if keeps_case_option

lemma keeps_s_connect: "keeps (s_connect srv)"
  unfolding s_connect_def client_connect_def seq.simps book_line_def price_line_def
  by (intro keeps_intros) (simp_all split: if_splits)

lemma keeps_s_fantasyBooks: "keeps (s_fantasyBooks srv)"
  unfolding s_fantasyBooks_def find_docs_def seq.simps book_line_def price_line_def
  by (intro keeps_intros) (simp_all split: if_splits)

lemma keeps_s_inStockAfter1950: "keeps (s_inStockAfter1950 srv)"
  unfolding s_inStockAfter1950_def find_docs_def seq.simps book_line_def price_line_def
  by (intro keeps_intros) (simp_all split: if_splits)

lemma keeps_s_top3Books: "keeps (s_top3Books srv)"
  unfolding s_top3Books_def find_docs_def seq.simps book_line_def price_line_def
  by (intro keeps_intros) (simp_all split: if_splits)

lemma keeps_s_page1: "keeps (s_page1 srv)"
  unfolding s_page1_def find_docs_def seq.simps book_line_def price_line_def
  by (intro keeps_intros) (simp_all split: if_splits)

lemma keeps_s_page2: "keeps (s_page2 srv)"
  unfolding s_page2_def find_docs_def seq.simps book_line_def price_line_def
  by (intro keeps_intros) (simp_all split: if_splits)

lemma keeps_s_topAuthors: "keeps (s_topAuthors srv)"
  unfolding s_topAuthors_def aggregate_def seq.simps book_line_def price_line_def
  by (intro keeps_intros) (simp_all split: if_splits)

lemma keeps_s_avgPriceByGenre: "keeps (s_avgPriceByGenre srv)"
  unfolding s_avgPriceByGenre_def aggregate_def seq.simps book_line_def price_line_def
  by (intro keeps_intros) (simp_all split: if_splits)

lemma keeps_s_topAuthorByBooks: "keeps (s_topAuthorByBooks srv)"
  unfolding s_topAuthorByBooks_def aggregate_def seq.simps book_line_def price_line_def
  by (intro keeps_intros) (simp_all split: if_splits)

lemma keeps_s_booksByDecade: "keeps (s_booksByDecade srv)"
  unfolding s_booksByDecade_def aggregate_def seq.simps book_line_def price_line_def
  by (intro keeps_intros) (simp_all split: if_splits)

lemma keeps_s_index_title: "keeps (s_index_title srv)"
  unfolding s_index_title_def createIndex_def seq.simps book_line_def price_line_def
  by (intro keeps_intros) (simp_all split: if_splits)

lemma keeps_s_index_compound: "keeps (s_index_compound srv)"
  unfolding s_index_compound_def createIndex_def seq.simps book_line_def price_line_def
  by (intro keeps_intros) (simp_all split: if_splits)

lemma keeps_s_indexes: "keeps (s_indexes srv)"
  unfolding s_indexes_def list_indexes_def seq.simps book_line_def price_line_def
  by (intro keeps_intros) (simp_all split: if_splits)

lemma keeps_s_booksAsc: "keeps (s_booksAsc srv)"
  unfolding s_booksAsc_def find_docs_def seq.simps book_line_def price_line_def
  by (intro keeps_intros) (simp_all split: if_splits)

lemma keeps_s_booksDesc: "keeps (s_booksDesc srv)"
  unfolding s_booksDesc_def find_docs_def seq.simps book_line_def price_line_def
  by (intro keeps_intros) (simp_all split: if_splits)

lemma keeps_s_indexedExplain: "keeps (s_indexedExplain srv)"
  unfolding s_indexedExplain_def explain_def seq.simps book_line_def price_line_def
  by (intro keeps_intros) (simp_all split: if_splits)

lemma keeps_s_nonIndexedExplain: "keeps (s_nonIndexedExplain srv)"
  unfolding s_nonIndexedExplain_def explain_def seq.simps book_line_def price_line_def
  by (intro keeps_intros) (simp_all split: if_splits)

lemma drop_try_steps:
  "drop 5 (try_steps srv) =
       [console_log [S ''--- 2. ADVANCED QUERIES ---''],
        s_inStockAfter1950 srv,
        s_top3Books srv,
        s_page1 srv,
        s_page2 srv,
        s_topAuthors srv,
        s_avgPriceByGenre srv,
        s_topAuthorByBooks srv,
        s_booksByDecade srv,
        s_index_title srv,
        s_index_compound srv,
        s_indexes srv,
        s_booksAsc srv,
        s_booksDesc srv,
        s_indexedExplain srv,
        s_nonIndexedExplain srv,
        console_log [S ''Query execution complete.'']]"
  by (simp add: try_steps_def)

lemma keeps_after_delete: "keeps (seq (drop 5 (try_steps srv)))"
  unfolding drop_try_steps seq.simps
  by (intro keeps_bind keeps_console_log keeps_ret
        keeps_s_inStockAfter1950 keeps_s_top3Books keeps_s_page1 keeps_s_page2 keeps_s_topAuthors keeps_s_avgPriceByGenre keeps_s_topAuthorByBooks keeps_s_booksByDecade keeps_s_index_title keeps_s_index_compound keeps_s_indexes keeps_s_booksAsc keeps_s_booksDesc keeps_s_indexedExplain keeps_s_nonIndexedExplain)

lemma keeps_finally_block: "keeps (finally_block srv)"
  unfolding finally_block_def client_close_def seq.simps
  by (intro keeps_intros) simp_all

lemma books_catch_error: "books (catch_error rw) = books (snd rw)"
  by (cases rw; cases "fst rw") (simp_all add: catch_error_def console_error_def)

lemma books_executeQueries:
  "books (snd (executeQueries srv w)) = books (snd (seq (try_steps srv) w))"
  using keeps_finally_block [of srv]
  by (simp add: executeQueries_def keeps_def books_catch_error)

lemma seq_append_ok: "seq pre w = (Inr (), w0) \<Longrightarrow> seq (pre @ post) w = seq post w0"
proof (induction pre arbitrary: w)
  case Nil
  then show ?case by (simp add: ret_def)
next
  case (Cons a pre)
  then show ?case by (auto simp add: bind_def split: prod.splits sum.splits)
qed

lemma s_fantasyBooks_ok:
  "fault srv 1 = None \<Longrightarrow>
     s_fantasyBooks srv w =
       (Inr (), w\<lparr>trace := trace w @
                    [Call client (booksCollection (Find q_fantasyBooks)),
                     Log [S ''Found Fantasy Books:'', Ds (run_find q_fantasyBooks (books w))]]\<rparr>)"
  by (simp add: s_fantasyBooks_def find_docs_def await_def bind_def console_log_def)

lemma crud_prefix:
  assumes "\<forall>k\<le>3. fault srv k = None"
  shows "\<exists>w0. seq (take 5 (try_steps srv)) w = (Inr (), w0) \<and> books w0 = after_crud (books w)
           \<and> (\<exists>evs. trace w0 = trace w @ evs)"
proof -
  have f: "fault srv 0 = None" "fault srv 1 = None" "fault srv 2 = None" "fault srv 3 = None"
    using assms by simp_all
  have t: "take 5 (try_steps srv) =
          [s_connect srv, console_log [S ''--- 1. CRUD OPERATIONS ---''], s_fantasyBooks srv,
           s_updateFantasy srv, s_deleteOld srv]"
    by (simp add: try_steps_def)
  show ?thesis
    unfolding t
    by (simp add: bind_def ret_def console_log_def s_connect_ok [OF f(1)] s_fantasyBooks_ok [OF f(2)]
        s_updateFantasy_ok [OF f(3)] s_deleteOld_ok [OF f(4)] after_crud_def)
qed

lemma books_after_run:
  assumes "\<forall>k\<le>3. fault srv k = None"
  shows "books (snd (executeQueries srv w)) = after_crud (books w)"
proof -
  from crud_prefix [OF assms] obtain w0 where
    w0: "seq (take 5 (try_steps srv)) w = (Inr (), w0)" "books w0 = after_crud (books w)" by blast
  have "seq (take 5 (try_steps srv) @ drop 5 (try_steps srv)) w = seq (drop 5 (try_steps srv)) w0"
    by (rule seq_append_ok) (rule w0(1))
  then have "seq (try_steps srv) w = seq (drop 5 (try_steps srv)) w0" by simp
  then have "books (snd (seq (try_steps srv) w)) = books w0"
    using keeps_after_delete [of srv] by (simp add: keeps_def)
  then show ?thesis by (simp add: books_executeQueries w0(2))
qed

lemma deleteMany_old: "deleteMany_books f_old bs = filter (\<lambda>b. 1950 \<le> published_year b) bs"
  by (simp add: deleteMany_books_def not_less)

lemma deletedCount_old: "deletedCount f_old bs = length (filter (\<lambda>b. published_year b < 1950) bs)"
  by (simp add: deletedCount_def)

subsection \<open>Up to the aggregation for the author with most books\<close>

lemma makes_appends: "makes a rs \<Longrightarrow> \<exists>evs. trace (snd (a w)) = trace w @ evs"
  unfolding makes_def by blast

lemma step_appends:
  assumes "s \<in> set (try_steps srv)"
  shows "\<exists>evs. trace (snd (s w)) = trace w @ evs"
proof -
  have "\<exists>rs. makes s rs"
    using assms unfolding try_steps_def
    by (auto intro: makes_console_log makes_s_connect makes_s_fantasyBooks makes_s_updateFantasy
        makes_s_deleteOld makes_s_inStockAfter1950 makes_s_top3Books makes_s_page1 makes_s_page2
        makes_s_topAuthors makes_s_avgPriceByGenre makes_s_topAuthorByBooks makes_s_booksByDecade
        makes_s_index_title makes_s_index_compound makes_s_indexes makes_s_booksAsc
        makes_s_booksDesc makes_s_indexedExplain makes_s_nonIndexedExplain)
  then show ?thesis using makes_appends by blast
qed

lemma seq_appends:
  assumes "\<And>s w. s \<in> set ss \<Longrightarrow> \<exists>evs. trace (snd (s w)) = trace w @ evs"
  shows "\<exists>evs. trace (snd (seq ss w)) = trace w @ evs"
  using assms
proof (induction ss arbitrary: w)
  case Nil
  then show ?case by (simp add: ret_def)
next
  case (Cons a ss)
  obtain r w1 where a: "a w = (r, w1)" by (cases "a w")
  from Cons.prems [of a w] a obtain e1 where e1: "trace w1 = trace w @ e1" by auto
  show ?case
  proof (cases r)
    case (Inl e)
    then show ?thesis using a e1 by (simp add: bind_def)
  next
    case (Inr u)
    from Cons.IH [of w1] Cons.prems obtain e2 where "trace (snd (seq ss w1)) = trace w1 @ e2"
      by auto
    then show ?thesis using a Inr e1 by (simp add: bind_def)
  qed
qed

lemma seq_returns:
  assumes "\<And>s w. s \<in> set ss \<Longrightarrow> \<exists>w'. s w = (Inr (), w')"
  shows "\<exists>w'. seq ss w = (Inr (), w')"
  using assms
proof (induction ss arbitrary: w)
  case Nil
  then show ?case by (simp add: ret_def)
next
  case (Cons a ss)
  from Cons.prems [of a w] obtain w1 where a: "a w = (Inr (), w1)" by auto
  from Cons.IH [of w1] Cons.prems obtain w2 where "seq ss w1 = (Inr (), w2)" by auto
  then show ?case using a by (simp add: bind_def)
qed

lemma seq_keeps:
  assumes "\<And>s. s \<in> set ss \<Longrightarrow> keeps s"
  shows "keeps (seq ss)"
  using assms by (induction ss) (simp_all add: keeps_ret keeps_bind)

lemma returnsD: "returns a P \<Longrightarrow> \<exists>w'. a w = (Inr (), w')"
  unfolding returns_def by (metis (full_types) old.unit.exhaust)

lemma reads_before_authors:
  "reads_before_authors srv =
     [console_log [S ''--- 2. ADVANCED QUERIES ---''], s_inStockAfter1950 srv, s_top3Books srv,
      s_page1 srv, s_page2 srv, s_topAuthors srv, s_avgPriceByGenre srv]"
  by (simp add: reads_before_authors_def try_steps_def)

lemma try_steps_split:
  "try_steps srv =
     take 5 (try_steps srv) @ reads_before_authors srv @
     s_topAuthorByBooks srv # s_booksByDecade srv # drop 14 (try_steps srv)"
  by (simp add: reads_before_authors_def try_steps_def)

lemma run_pipeline_Nil [simp]: "run_pipeline av p_topAuthorByBooks [] = []"
  by (simp add: run_pipeline_def p_topAuthorByBooks_def group_rows_def group_keys_def
      sort_docs_def sort_by_def)

lemma topAuthorByBooks_empty_iff: "run_pipeline av p_topAuthorByBooks bs = [] \<longleftrightarrow> bs = []"
proof
  assume e: "run_pipeline av p_topAuthorByBooks bs = []"
  show "bs = []"
  proof (rule ccontr)
    assume "bs \<noteq> []"
    then have "group_keys (FieldRef ''author'') (map doc_of bs) \<noteq> []"
      by (metis empty_is_image list.map_disc_iff set_empty set_group_keys)
    then have "length (run_pipeline av p_topAuthorByBooks bs) = 1"
      by (cases "group_keys (FieldRef ''author'') (map doc_of bs)")
        (simp_all add: run_pipeline_def p_topAuthorByBooks_def group_rows_def min_def)
    then show False using e by simp
  qed
qed simp

lemma s_topAuthorByBooks_empty:
  assumes "fault srv 10 = None" and "run_pipeline (average srv) p_topAuthorByBooks (books w) = []"
  shows "s_topAuthorByBooks srv w =
       (Inr (), w\<lparr>trace := trace w @
          [Log [S ''--- 7. AGGREGATION PIPELINE: Author with Most Books ---''],
           Call client (booksCollection (Aggregate p_topAuthorByBooks)),
           Log [S ''No authors found in the collection.'']]\<rparr>)"
  using assms
  by (simp add: s_topAuthorByBooks_def aggregate_def await_def bind_def console_log_def ret_def)

lemma s_topAuthorByBooks_returns:
  assumes "fault srv 10 = None"
  shows "fst (s_topAuthorByBooks srv w) = Inr ()"
  using returnsD [OF returns_s_topAuthorByBooks [OF assms], of w] by auto

lemma s_booksByDecade_first:
  "\<exists>evs. trace (snd (s_booksByDecade srv w)) =
     trace w @ Log [S ''--- 8. AGGREGATION PIPELINE: Books Grouped by Publication Decade ---''] #
               Call client (booksCollection (Aggregate p_booksByDecade)) # evs"
proof (cases "fault srv 11")
  case None
  let ?w1 = "w\<lparr>trace := trace w @
      [Log [S ''--- 8. AGGREGATION PIPELINE: Books Grouped by Publication Decade ---''],
       Call client (booksCollection (Aggregate p_booksByDecade))]\<rparr>"
  let ?print = "\<lambda>booksByDecade.
               seq [console_log [S ''Books Grouped by Publication Decade:''],
                    forEach booksByDecade
                      (\<lambda>d. console_log [S ''  - '', V (key_of ''_id'' d), S '': '',
                                         V (key_of ''count'' d), S '' books''])]"
  let ?rows = "run_pipeline (average srv) p_booksByDecade (books w)"
  have "makes (?print ?rows) ([] @ [] @ [])"
    by (intro makes_intros)
  then obtain evs where evs: "trace (snd (?print ?rows ?w1)) = trace ?w1 @ evs"
    using makes_appends by blast
  have "snd (s_booksByDecade srv w) = snd (?print ?rows ?w1)"
    using None
    by (simp add: s_booksByDecade_def aggregate_def await_def bind_def console_log_def ret_def
        split: prod.splits sum.splits)
  then show ?thesis using evs by simp
next
  case (Some e)
  then show ?thesis
    by (simp add: s_booksByDecade_def aggregate_def await_def bind_def console_log_def)
qed

lemma run_reaches_decade:
  assumes f: "\<forall>k\<le>10. fault srv k = None"
    and e: "run_pipeline (average srv) p_topAuthorByBooks (after_crud (books w)) = []"
  shows "\<exists>evs1 evs2. trace (snd (executeQueries srv w)) =
           trace w @ evs1 @
           [Call client (booksCollection (Aggregate p_topAuthorByBooks)),
            Log [S ''No authors found in the collection.''],
            Log [S ''--- 8. AGGREGATION PIPELINE: Books Grouped by Publication Decade ---''],
            Call client (booksCollection (Aggregate p_booksByDecade))] @ evs2"
proof -
  let ?mid = "reads_before_authors srv"
  let ?rest = "drop 14 (try_steps srv)"
  have f3: "\<forall>k\<le>3. fault srv k = None" using f by simp
  from crud_prefix [OF f3] obtain w0 e0 where
    w0: "seq (take 5 (try_steps srv)) w = (Inr (), w0)" "books w0 = after_crud (books w)"
      "trace w0 = trace w @ e0" by blast
  have mid_ret: "\<exists>w''. s w' = (Inr (), w'')" if "s \<in> set ?mid" for s w'
  proof -
    have "returns s (\<lambda>_. True)"
      using that f unfolding reads_before_authors
      by (auto intro: returns_console_log returns_s_inStockAfter1950 returns_s_top3Books
          returns_s_page1 returns_s_page2 returns_s_topAuthors returns_s_avgPriceByGenre)
    then show ?thesis by (rule returnsD)
  qed
  have mid_keeps: "keeps s" if "s \<in> set ?mid" for s
    using that unfolding reads_before_authors
    by (auto intro: keeps_console_log keeps_s_inStockAfter1950 keeps_s_top3Books
        keeps_s_page1 keeps_s_page2 keeps_s_topAuthors keeps_s_avgPriceByGenre)
  have mid_in: "s \<in> set (try_steps srv)" if "s \<in> set ?mid" for s
    using that unfolding reads_before_authors_def by (meson in_set_dropD in_set_takeD)
  from seq_returns [of ?mid w0] mid_ret obtain w1 where w1: "seq ?mid w0 = (Inr (), w1)"
    by blast
  have b1: "books w1 = after_crud (books w)"
    using seq_keeps [of ?mid] mid_keeps w1 w0(2) unfolding keeps_def by (metis snd_conv)
  from seq_appends [of ?mid w0] step_appends mid_in w1 obtain e1 where
    e1: "trace w1 = trace w0 @ e1" by (metis snd_conv)
  let ?w2 = "w1\<lparr>trace := trace w1 @
          [Log [S ''--- 7. AGGREGATION PIPELINE: Author with Most Books ---''],
           Call client (booksCollection (Aggregate p_topAuthorByBooks)),
           Log [S ''No authors found in the collection.'']]\<rparr>"
  have s12: "s_topAuthorByBooks srv w1 = (Inr (), ?w2)"
    by (rule s_topAuthorByBooks_empty) (use f e b1 in simp_all)
  obtain r3 w3 where s13: "s_booksByDecade srv ?w2 = (r3, w3)"
    by (cases "s_booksByDecade srv ?w2")
  from s_booksByDecade_first [of srv ?w2] s13 obtain e3 where
    e3: "trace w3 = trace ?w2 @
           Log [S ''--- 8. AGGREGATION PIPELINE: Books Grouped by Publication Decade ---''] #
           Call client (booksCollection (Aggregate p_booksByDecade)) # e3" by auto
  obtain r4 w4 where t4: "seq (s_booksByDecade srv # ?rest) ?w2 = (r4, w4)"
    by (cases "seq (s_booksByDecade srv # ?rest) ?w2")
  have "\<exists>e4. trace w4 = trace w3 @ e4"
  proof (cases r3)
    case (Inl err)
    then show ?thesis using t4 s13 by (simp add: bind_def)
  next
    case (Inr u)
    then have "seq ?rest w3 = (r4, w4)" using t4 s13 by (simp add: bind_def)
    moreover have "\<exists>evs. trace (snd (seq ?rest w3)) = trace w3 @ evs"
      by (rule seq_appends) (meson in_set_dropD step_appends)
    ultimately show ?thesis by simp
  qed
  then obtain e4 where e4: "trace w4 = trace w3 @ e4" ..
  have "seq (take 5 (try_steps srv) @ (?mid @ s_topAuthorByBooks srv # s_booksByDecade srv # ?rest)) w =
        seq (?mid @ s_topAuthorByBooks srv # s_booksByDecade srv # ?rest) w0"
    by (rule seq_append_ok) (rule w0(1))
  also have "\<dots> = seq (s_topAuthorByBooks srv # s_booksByDecade srv # ?rest) w1"
    by (rule seq_append_ok) (rule w1)
  also have "\<dots> = seq (s_booksByDecade srv # ?rest) ?w2"
    using s12 by (simp add: bind_def)
  finally have t: "seq (try_steps srv) w = (r4, w4)"
    using t4 try_steps_split [of srv] by simp
  let ?tail = "(case r4 of Inl e \<Rightarrow> [LogError [S ''Error occurred:'', E e]] | Inr u \<Rightarrow> []) @
     [Call client Close] @ (if fault srv 19 = None then [Log [S ''Connection closed.'']] else [])"
  have "trace (snd (executeQueries srv w)) =
          trace w @ (e0 @ e1 @ [Log [S ''--- 7. AGGREGATION PIPELINE: Author with Most Books ---'']]) @
           [Call client (booksCollection (Aggregate p_topAuthorByBooks)),
            Log [S ''No authors found in the collection.''],
            Log [S ''--- 8. AGGREGATION PIPELINE: Books Grouped by Publication Decade ---''],
            Call client (booksCollection (Aggregate p_booksByDecade))] @ (e3 @ e4 @ ?tail)"
    using executeQueries_trace [OF t] e4 e3 e1 w0(3) by simp
  then show ?thesis by blast
qed

subsection \<open>The counts of the groups\<close>

lemma sum_insort_by:
  fixes g :: "'a \<Rightarrow> nat"
  shows "sum_list (map g (insort_by le x ys)) = g x + sum_list (map g ys)"
  by (induction ys) auto

lemma sum_sort_by:
  fixes g :: "'a \<Rightarrow> nat"
  shows "sum_list (map g (sort_by le xs)) = sum_list (map g xs)"
  by (induction xs) (simp_all add: sort_by_def sum_insort_by)

lemma sum_sort_docs:
  fixes g :: "doc \<Rightarrow> nat"
  shows "sum_list (map g (sort_docs spec ds)) = sum_list (map g ds)"
  by (induction spec) (simp_all add: sort_docs_def sum_sort_by)

lemma count_sum_sort_docs [simp]: "count_sum name (sort_docs spec ds) = count_sum name ds"
  by (simp add: count_sum_def sum_sort_docs)

lemma indicator_sum:
  "distinct ks \<Longrightarrow> sum_list (map (\<lambda>k. if y = k then 1 else 0) ks) = (if y \<in> set ks then 1 else (0::nat))"
  by (induction ks) auto

lemma partition_sum:
  "distinct ks \<Longrightarrow> f ` set ds \<subseteq> set ks \<Longrightarrow>
     sum_list (map (\<lambda>k. length (filter (\<lambda>d. f d = k) ds)) ks) = length ds"
proof (induction ds)
  case Nil
  then show ?case by simp
next
  case (Cons d ds)
  have "sum_list (map (\<lambda>k. length (filter (\<lambda>x. f x = k) (d # ds))) ks) =
        sum_list (map (\<lambda>k. (if f d = k then 1 else 0) + length (filter (\<lambda>x. f x = k) ds)) ks)"
    by (rule arg_cong [where f = sum_list]) (rule map_cong, auto)
  also have "\<dots> = sum_list (map (\<lambda>k. if f d = k then 1 else 0) ks) +
                   sum_list (map (\<lambda>k. length (filter (\<lambda>x. f x = k) ds)) ks)"
    by (simp add: sum_list_addf)
  also have "\<dots> = 1 + length ds"
    using Cons by (simp add: indicator_sum)
  finally show ?case by simp
qed

lemma distinct_group_keys [simp]: "distinct (group_keys k ds)"
  by (simp add: group_keys_def)

lemma length_group_rows [simp]: "length (group_rows av k accs ds) = length (group_keys k ds)"
  by (simp add: group_rows_def)

lemma length_group_keys: "length (group_keys k ds) = card (gkey_val k ` set ds)"
  by (metis distinct_card distinct_group_keys set_group_keys)

lemma row_count_group_row:
  assumes "counted name accs"
  shows "row_count name ((''_id'', key) # map (\<lambda>(n, a). (n, acc_val av a grp)) accs) = length grp"
proof -
  have "map_of (map (\<lambda>(n, a). (n, acc_val av a grp)) accs) name = Some (acc_val av Count grp)"
    using assms unfolding counted_def by (induction accs) (auto split: if_splits)
  then show ?thesis
    using assms by (simp add: row_count_def key_of_def counted_def)
qed

lemma count_sum_group_rows:
  assumes "counted name accs"
  shows "count_sum name (group_rows av k accs ds) = length ds"
proof -
  have "count_sum name (group_rows av k accs ds) =
        sum_list (map (\<lambda>key. length (filter (\<lambda>d. gkey_val k d = key) ds)) (group_keys k ds))"
    by (simp add: count_sum_def group_rows_def comp_def row_count_group_row [OF assms])
  also have "\<dots> = length ds"
    by (rule partition_sum) simp_all
  finally show ?thesis .
qed

lemma row_count_pos:
  assumes "counted name accs" and "r \<in> set (group_rows av k accs ds)"
  shows "0 < row_count name r"
proof -
  from assms(2) obtain key where key: "key \<in> gkey_val k ` set ds"
    and r: "r = (''_id'', key) #
                map (\<lambda>(n, a). (n, acc_val av a (filter (\<lambda>d. gkey_val k d = key) ds))) accs"
    by (auto simp add: group_rows_def)
  from key have "filter (\<lambda>d. gkey_val k d = key) ds \<noteq> []"
    by (auto simp add: filter_empty_conv)
  then show ?thesis
    unfolding r row_count_group_row [OF assms(1)] by simp
qed

lemma count_sum_take:
  assumes "\<And>r. r \<in> set rows \<Longrightarrow> 0 < row_count name r"
  shows "count_sum name (take n rows) \<le> count_sum name rows"
    and "count_sum name (take n rows) = count_sum name rows \<longleftrightarrow> length rows \<le> n"
proof -
  have split: "count_sum name rows = count_sum name (take n rows) + count_sum name (drop n rows)"
    unfolding count_sum_def by (metis append_take_drop_id map_append sum_list_append)
  then show "count_sum name (take n rows) \<le> count_sum name rows" by simp
  have "count_sum name (drop n rows) = 0 \<longleftrightarrow> drop n rows = []"
  proof
    assume z: "count_sum name (drop n rows) = 0"
    show "drop n rows = []"
    proof (cases "drop n rows")
      case (Cons r rs)
      then have "r \<in> set rows" by (metis in_set_dropD list.set_intros(1))
      then have "0 < row_count name r" by (rule assms)
      then show ?thesis using z Cons by (simp add: count_sum_def)
    qed simp
  qed (simp add: count_sum_def)
  then show "count_sum name (take n rows) = count_sum name rows \<longleftrightarrow> length rows \<le> n"
    using split by auto
qed

lemma card_author_keys:
  "card (gkey_val (FieldRef ''author'') ` set (map doc_of bs)) = card (author ` set bs)"
proof -
  have "gkey_val (FieldRef ''author'') ` set (map doc_of bs) = VStr ` (author ` set bs)"
    by (auto simp add: image_iff)
  then show ?thesis by (simp add: card_image inj_on_def)
qed

lemma counted_simps:
  "counted ''totalBooks'' [(''avgPrice'', Avg ''price''), (''totalBooks'', Count)]"
  "counted ''bookCount'' [(''bookCount'', Count)]"
  "counted ''count'' [(''count'', Count)]"
  by (simp_all add: counted_def)

lemma genre_counts: "count_sum ''totalBooks'' (run_pipeline av p_avgPriceByGenre bs) = length bs"
  by (simp add: run_pipeline_def p_avgPriceByGenre_def count_sum_group_rows counted_simps)

lemma decade_counts: "count_sum ''count'' (run_pipeline av p_booksByDecade bs) = length bs"
  by (simp add: run_pipeline_def p_booksByDecade_def count_sum_group_rows counted_simps)

lemma limited_counts:
  assumes "counted name accs"
  shows "count_sum name (take n (sort_docs spec (group_rows av (FieldRef ''author'') accs (map doc_of bs))))
           \<le> length bs"
    and "count_sum name (take n (sort_docs spec (group_rows av (FieldRef ''author'') accs (map doc_of bs))))
           = length bs \<longleftrightarrow> card (author ` set bs) \<le> n"
proof -
  let ?rows = "sort_docs spec (group_rows av (FieldRef ''author'') accs (map doc_of bs))"
  have pos: "0 < row_count name r" if "r \<in> set ?rows" for r
    using that row_count_pos [OF assms] by simp
  have total: "count_sum name ?rows = length bs"
    by (simp add: count_sum_group_rows [OF assms])
  have len: "length ?rows = card (author ` set bs)"
    using card_author_keys [of bs] by (simp only: length_sort_docs length_group_rows length_group_keys)
  show "count_sum name (take n ?rows) \<le> length bs"
    using count_sum_take(1) [of ?rows name n] pos total by simp
  show "count_sum name (take n ?rows) = length bs \<longleftrightarrow> card (author ` set bs) \<le> n"
    using count_sum_take(2) [of ?rows name n] pos total len by simp
qed

lemma topAuthors_counts:
  "count_sum ''totalBooks'' (run_pipeline av p_topAuthors bs) \<le> length bs"
  "count_sum ''totalBooks'' (run_pipeline av p_topAuthors bs) = length bs
     \<longleftrightarrow> card (author ` set bs) \<le> 5"
  using limited_counts [OF counted_simps(1), of 5 "[(''avgPrice'', - 1)]" av bs]
  by (simp_all add: run_pipeline_def p_topAuthors_def)

lemma topAuthorByBooks_counts:
  "count_sum ''bookCount'' (run_pipeline av p_topAuthorByBooks bs) \<le> length bs"
  "count_sum ''bookCount'' (run_pipeline av p_topAuthorByBooks bs) = length bs
     \<longleftrightarrow> card (author ` set bs) \<le> 1"
  using limited_counts [OF counted_simps(2), of 1 "[(''bookCount'', - 1)]" av bs]
  by (simp_all add: run_pipeline_def p_topAuthorByBooks_def)

lemma card_six_authors: "card (author ` set six_authors) = 6"
  by (simp add: six_authors_def by_author_def)

subsection \<open>Sorting and the pages\<close>




lemma insort_by_map:
  "insort_by le (f x) (map f ys) = map f (insort_by (\<lambda>a b. le (f a) (f b)) x ys)"
  by (induction ys) auto

lemma sort_by_map: "sort_by le (map f xs) = map f (sort_by (\<lambda>a b. le (f a) (f b)) xs)"
  by (induction xs) (simp_all add: sort_by_def insort_by_map)

lemma title_le_doc_of [simp]:
  "doc_le (''title'', 1) (doc_of a) (doc_of b) = (title a \<le> title b)"
  by (simp add: doc_le_def)

lemma key_of_projected [simp]:
  "key_of ''title'' (project projection (doc_of b)) = VStr (title b)"
  by (simp add: key_of_def project_def projection_def doc_of_def)

lemma title_le_projected [simp]:
  "doc_le (''title'', 1) (project projection (doc_of a)) (project projection (doc_of b)) =
     (title a \<le> title b)"
  by (simp add: doc_le_def)


lemma matches_Nil [simp]: "matches [] d"
  by (simp add: matches_def)

lemma sort_docs_title: "sort_docs [(''title'', 1)] (map doc_of bs) = map doc_of (by_title bs)"
  by (simp add: sort_docs_def sort_by_map by_title_def)

lemma find_all_by_title:
  "run_find q_all_by_title bs = map (project projection \<circ> doc_of) (by_title bs)"
  by (simp add: run_find_def q_all_by_title_def sort_docs_title limit_docs_def skip_docs_def)






lemma length_find_all [simp]: "length (run_find q_all_by_title bs) = length bs"
  by (simp add: find_all_by_title by_title_def)










subsection \<open>The open connections\<close>

lemma keeps_conns_ret: "keeps_conns (ret x)"
  by (simp add: keeps_conns_def ret_def)

lemma keeps_conns_throw: "keeps_conns (throw e)"
  by (simp add: keeps_conns_def throw_def)

lemma keeps_conns_console_log: "keeps_conns (console_log ps)"
  by (simp add: keeps_conns_def console_log_def)

lemma keeps_conns_await:
  assumes "\<And>w. open_conns (snd (eff w)) = open_conns w"
  shows "keeps_conns (await srv k c r eff)"
  unfolding keeps_conns_def
proof
  fix w :: world
  show "open_conns (snd (await srv k c r eff w)) = open_conns w"
    using assms [of "w\<lparr>trace := trace w @ [Call c r]\<rparr>"]
    by (cases "fault srv k") (auto simp add: await_def split: prod.splits)
qed

lemma keeps_conns_bind:
  assumes "keeps_conns m" and "\<And>x. keeps_conns (f x)"
  shows "keeps_conns (bind m f)"
  unfolding keeps_conns_def
proof
  fix w :: world
  obtain r w1 where m: "m w = (r, w1)" by (cases "m w")
  then have b: "open_conns w1 = open_conns w"
    using assms(1) unfolding keeps_conns_def by (metis snd_conv)
  show "open_conns (snd (bind m f w)) = open_conns w"
  proof (cases r)
    case (Inl e)
    then show ?thesis using m b by (simp add: bind_def)
  next
    case (Inr x)
    then have "bind m f w = f x w1" using m by (simp add: bind_def)
    then show ?thesis using assms(2) [of x] b unfolding keeps_conns_def by simp
  qed
qed

lemma keeps_conns_forEach: "(\<And>x. keeps_conns (f x)) \<Longrightarrow> keeps_conns (forEach xs f)"
  by (induction xs) (simp_all add: keeps_conns_ret keeps_conns_bind)

lemma keeps_conns_toFixed: "keeps_conns (toFixed v n)"
  by (cases v) (simp_all add: keeps_conns_ret keeps_conns_throw)

lemma keeps_conns_if: "keeps_conns a \<Longrightarrow> keeps_conns b \<Longrightarrow> keeps_conns (if c then a else b)"
  by simp

lemma keeps_conns_case_option:
  "keeps_conns a \<Longrightarrow> (\<And>x. keeps_conns (f x)) \<Longrightarrow>
     keeps_conns (case t of None \<Rightarrow> a | Some x \<Rightarrow> f x)"
  by (cases t) auto

lemmas keeps_conns_intros =
  keeps_conns_bind keeps_conns_await keeps_conns_forEach keeps_conns_console_log keeps_conns_ret
  keeps_conns_throw keeps_conns_toFixed keeps_conns_if keeps_conns_case_option

lemma keeps_conns_s_fantasyBooks: "keeps_conns (s_fantasyBooks srv)"
  unfolding s_fantasyBooks_def find_docs_def seq.simps book_line_def price_line_def
  by (intro keeps_conns_intros) (simp_all split: if_splits)

lemma keeps_conns_s_updateFantasy: "keeps_conns (s_updateFantasy srv)"
  unfolding s_updateFantasy_def updateMany_def seq.simps book_line_def price_line_def
  by (intro keeps_conns_intros) (simp_all split: if_splits)

lemma keeps_conns_s_deleteOld: "keeps_conns (s_deleteOld srv)"
  unfolding s_deleteOld_def deleteMany_def seq.simps book_line_def price_line_def
  by (intro keeps_conns_intros) (simp_all split: if_splits)

lemma keeps_conns_s_inStockAfter1950: "keeps_conns (s_inStockAfter1950 srv)"
  unfolding s_inStockAfter1950_def find_docs_def seq.simps book_line_def price_line_def
  by (intro keeps_conns_intros) (simp_all split: if_splits)

lemma keeps_conns_s_top3Books: "keeps_conns (s_top3Books srv)"
  unfolding s_top3Books_def find_docs_def seq.simps book_line_def price_line_def
  by (intro keeps_conns_intros) (simp_all split: if_splits)

lemma keeps_conns_s_page1: "keeps_conns (s_page1 srv)"
  unfolding s_page1_def find_docs_def seq.simps book_line_def price_line_def
  by (intro keeps_conns_intros) (simp_all split: if_splits)

lemma keeps_conns_s_page2: "keeps_conns (s_page2 srv)"
  unfolding s_page2_def find_docs_def seq.simps book_line_def price_line_def
  by (intro keeps_conns_intros) (simp_all split: if_splits)

lemma keeps_conns_s_topAuthors: "keeps_conns (s_topAuthors srv)"
  unfolding s_topAuthors_def aggregate_def seq.simps book_line_def price_line_def
  by (intro keeps_conns_intros) (simp_all split: if_splits)

lemma keeps_conns_s_avgPriceByGenre: "keeps_conns (s_avgPriceByGenre srv)"
  unfolding s_avgPriceByGenre_def aggregate_def seq.simps book_line_def price_line_def
  by (intro keeps_conns_intros) (simp_all split: if_splits)

lemma keeps_conns_s_topAuthorByBooks: "keeps_conns (s_topAuthorByBooks srv)"
  unfolding s_topAuthorByBooks_def aggregate_def seq.simps book_line_def price_line_def
  by (intro keeps_conns_intros) (simp_all split: if_splits)

lemma keeps_conns_s_booksByDecade: "keeps_conns (s_booksByDecade srv)"
  unfolding s_booksByDecade_def aggregate_def seq.simps book_line_def price_line_def
  by (intro keeps_conns_intros) (simp_all split: if_splits)

lemma keeps_conns_s_index_title: "keeps_conns (s_index_title srv)"
  unfolding s_index_title_def createIndex_def seq.simps book_line_def price_line_def
  by (intro keeps_conns_intros) (simp_all split: if_splits)

lemma keeps_conns_s_index_compound: "keeps_conns (s_index_compound srv)"
  unfolding s_index_compound_def createIndex_def seq.simps book_line_def price_line_def
  by (intro keeps_conns_intros) (simp_all split: if_splits)

lemma keeps_conns_s_indexes: "keeps_conns (s_indexes srv)"
  unfolding s_indexes_def list_indexes_def seq.simps book_line_def price_line_def
  by (intro keeps_conns_intros) (simp_all split: if_splits)

lemma keeps_conns_s_booksAsc: "keeps_conns (s_booksAsc srv)"
  unfolding s_booksAsc_def find_docs_def seq.simps book_line_def price_line_def
  by (intro keeps_conns_intros) (simp_all split: if_splits)

lemma keeps_conns_s_booksDesc: "keeps_conns (s_booksDesc srv)"
  unfolding s_booksDesc_def find_docs_def seq.simps book_line_def price_line_def
  by (intro keeps_conns_intros) (simp_all split: if_splits)

lemma keeps_conns_s_indexedExplain: "keeps_conns (s_indexedExplain srv)"
  unfolding s_indexedExplain_def explain_def seq.simps book_line_def price_line_def
  by (intro keeps_conns_intros) (simp_all split: if_splits)

lemma keeps_conns_s_nonIndexedExplain: "keeps_conns (s_nonIndexedExplain srv)"
  unfolding s_nonIndexedExplain_def explain_def seq.simps book_line_def price_line_def
  by (intro keeps_conns_intros) (simp_all split: if_splits)

lemma tl_try_steps:
  "tl (try_steps srv) =
     [console_log [S ''--- 1. CRUD OPERATIONS ---''],
      s_fantasyBooks srv,
      s_updateFantasy srv,
      s_deleteOld srv,
      console_log [S ''--- 2. ADVANCED QUERIES ---''],
      s_inStockAfter1950 srv,
      s_top3Books srv,
      s_page1 srv,
      s_page2 srv,
      s_topAuthors srv,
      s_avgPriceByGenre srv,
      s_topAuthorByBooks srv,
      s_booksByDecade srv,
      s_index_title srv,
      s_index_compound srv,
      s_indexes srv,
      s_booksAsc srv,
      s_booksDesc srv,
      s_indexedExplain srv,
      s_nonIndexedExplain srv,
      console_log [S ''Query execution complete.'']]"
  by (simp add: try_steps_def)

lemma keeps_conns_rest: "keeps_conns (seq (tl (try_steps srv)))"
  unfolding tl_try_steps seq.simps
  by (intro keeps_conns_bind keeps_conns_console_log keeps_conns_ret
        keeps_conns_s_fantasyBooks keeps_conns_s_updateFantasy keeps_conns_s_deleteOld keeps_conns_s_inStockAfter1950 keeps_conns_s_top3Books keeps_conns_s_page1 keeps_conns_s_page2 keeps_conns_s_topAuthors keeps_conns_s_avgPriceByGenre keeps_conns_s_topAuthorByBooks keeps_conns_s_booksByDecade keeps_conns_s_index_title keeps_conns_s_index_compound keeps_conns_s_indexes keeps_conns_s_booksAsc keeps_conns_s_booksDesc keeps_conns_s_indexedExplain keeps_conns_s_nonIndexedExplain)

lemma conns_after_try:
  "open_conns (snd (seq (try_steps srv) w)) =
     (if fault srv 0 = None then client # open_conns w else open_conns w)"
proof (cases "fault srv 0")
  case None
  let ?w' = "w\<lparr>open_conns := client # open_conns w,
                  trace := trace w @ [Log [S ''Attempting to connect to MongoDB Atlas...''],
                                      Call client Connect,
                                      Log [S ''Successfully connected to MongoDB Atlas!'']]\<rparr>"
  have "seq (s_connect srv # tl (try_steps srv)) w = seq (tl (try_steps srv)) ?w'"
    by (simp add: bind_def s_connect_ok [OF None])
  then have "seq (try_steps srv) w = seq (tl (try_steps srv)) ?w'"
    using try_steps_Cons [of srv] by simp
  then show ?thesis
    using keeps_conns_rest [of srv] None by (simp add: keeps_conns_def)
next
  case (Some e)
  have "seq ([] @ s_connect srv # tl (try_steps srv)) w =
          (Inl e, w\<lparr>trace := trace w @ [Log [S ''Attempting to connect to MongoDB Atlas...''],
                                            Call client Connect]\<rparr>)"
    by (rule seq_append_fail) (simp_all add: ret_def s_connect_fails [OF Some])
  then show ?thesis using try_steps_Cons [of srv] Some by simp
qed

lemma conns_catch_error: "open_conns (catch_error rw) = open_conns (snd rw)"
  by (cases rw; cases "fst rw") (simp_all add: catch_error_def console_error_def)

lemma finally_block_result:
  "finally_block srv w =
     (case fault srv 19 of
        None \<Rightarrow> (Inr (), w\<lparr>open_conns := removeAll client (open_conns w),
                             trace := trace w @ [Call client Close, Log [S ''Connection closed.'']]\<rparr>)
      | Some e \<Rightarrow> (Inl e, w\<lparr>trace := trace w @ [Call client Close]\<rparr>))"
  by (cases "fault srv 19")
    (simp_all add: finally_block_def client_close_def await_def bind_def console_log_def ret_def)

lemma conns_before_finally:
  "open_conns (catch_error (seq (try_steps srv) w)) =
     (if fault srv 0 = None then client # open_conns w else open_conns w)"
  by (simp only: conns_catch_error conns_after_try)

lemma executeQueries_result:
  "executeQueries srv w =
     (case fault srv 19 of
        None \<Rightarrow> (Inr (), (catch_error (seq (try_steps srv) w))
                     \<lparr>open_conns := removeAll client (open_conns (catch_error (seq (try_steps srv) w))),
                      trace := trace (catch_error (seq (try_steps srv) w)) @
                                 [Call client Close, Log [S ''Connection closed.'']]\<rparr>)
      | Some e \<Rightarrow> (Inl e, (catch_error (seq (try_steps srv) w))
                     \<lparr>trace := trace (catch_error (seq (try_steps srv) w)) @ [Call client Close]\<rparr>))"
  by (simp add: executeQueries_def finally_block_result)

lemma fault_connect_and_close_fail [simp]:
  "fault connect_and_close_fail j = (if j = 0 \<or> j = 19 then Some (Error ''ECONNREFUSED'') else None)"
  by (simp add: connect_and_close_fail_def ex_server_def)

section \<open>The price-multiply step\<close>

text \<open>
  C1.  The price-multiply step keeps the number and the order of the records; every
  record of the genre Fantasy gets the price that the binary64 product of its price
  with the literal \<open>1.1\<close> gives, nothing else of it changes, and every other record
  stays as it is.  The reported \<open>modifiedCount\<close> is the number of records that
  differ from what they were, and the step prints it.  In particular three Fantasy
  records with the prices 10, 20 and 30 get the prices 11, 22 and 33 (exactly: both
  ties round to the even significand), with a count of 3.
\<close>

theorem price_multiply_step:
  "length (updateMany_books f_fantasy (MulPrice lit_1_1) bs) = length bs
   \<and> (\<forall>i<length bs.
         updateMany_books f_fantasy (MulPrice lit_1_1) bs ! i =
           (if genre (bs ! i) = ''Fantasy''
            then (bs ! i)\<lparr>price := dmul (price (bs ! i)) lit_1_1\<rparr>
            else bs ! i))
   \<and> modifiedCount f_fantasy (MulPrice lit_1_1) bs =
       card {i. i < length bs \<and> updateMany_books f_fantasy (MulPrice lit_1_1) bs ! i \<noteq> bs ! i}
   \<and> (fault srv 2 = None \<longrightarrow>
       s_updateFantasy srv w =
         (Inr (), w\<lparr>books := updateMany_books f_fantasy (MulPrice lit_1_1) (books w),
                    trace := trace w @
                      [Call client (booksCollection (UpdateMany f_fantasy (MulPrice lit_1_1))),
                       Log [S ''Updated '', N (modifiedCount f_fantasy (MulPrice lit_1_1) (books w)),
                            S '' Fantasy book prices by 10%.'']]\<rparr>))
   \<and> (genre b1 = ''Fantasy'' \<and> genre b2 = ''Fantasy'' \<and> genre b3 = ''Fantasy'' \<and>
       price b1 = dbl 10 \<and> price b2 = dbl 20 \<and> price b3 = dbl 30 \<longrightarrow>
       map price (updateMany_books f_fantasy (MulPrice lit_1_1) [b1, b2, b3]) =
         [dbl 11, dbl 22, dbl 33] \<and>
       modifiedCount f_fantasy (MulPrice lit_1_1) [b1, b2, b3] = 3)"
proof -
  have ex: "map price (updateMany_books f_fantasy (MulPrice lit_1_1) [b1, b2, b3]) =
         [dbl 11, dbl 22, dbl 33] \<and>
       modifiedCount f_fantasy (MulPrice lit_1_1) [b1, b2, b3] = 3"
    if "genre b1 = ''Fantasy'' \<and> genre b2 = ''Fantasy'' \<and> genre b3 = ''Fantasy'' \<and>
       price b1 = dbl 10 \<and> price b2 = dbl 20 \<and> price b3 = dbl 30"
  proof -
    have "b1\<lparr>price := dbl 11\<rparr> \<noteq> b1" "b2\<lparr>price := dbl 22\<rparr> \<noteq> b2" "b3\<lparr>price := dbl 33\<rparr> \<noteq> b3"
      using that ten_percent(4-6) by (metis book.select_convs(4) book.surjective book.update_convs(4))+
    then show ?thesis
      using that by (simp add: updateMany_books_def modifiedCount_def ten_percent(1-3))
  qed
  show ?thesis
    using ex by (simp add: updateMany_nth modifiedCount_card s_updateFantasy_ok)
      (simp add: updateMany_books_def)
qed

theorem price_multiply_step_witness:
  "map price (books (snd (s_updateFantasy never_failing (ex_world seed_fantasy)))) =
     [dbl 11, dbl 22, dbl 33]
   \<and> last (trace (snd (s_updateFantasy never_failing (ex_world seed_fantasy)))) =
       Log [S ''Updated '', N 3, S '' Fantasy book prices by 10%.'']"
proof -
  have g: "genre hobbit = ''Fantasy'' \<and> genre earthsea = ''Fantasy'' \<and>
           genre colour_of_magic = ''Fantasy'' \<and> price hobbit = dbl 10 \<and>
           price earthsea = dbl 20 \<and> price colour_of_magic = dbl 30"
    by (simp add: hobbit_def earthsea_def colour_of_magic_def)
  from price_multiply_step
    [of seed_fantasy never_failing "ex_world seed_fantasy" hobbit earthsea colour_of_magic]
  have "s_updateFantasy never_failing (ex_world seed_fantasy) =
         (Inr (), (ex_world seed_fantasy)\<lparr>books := updateMany_books f_fantasy (MulPrice lit_1_1) (books (ex_world seed_fantasy)),
                    trace := trace (ex_world seed_fantasy) @
                      [Call client (booksCollection (UpdateMany f_fantasy (MulPrice lit_1_1))),
                       Log [S ''Updated '', N (modifiedCount f_fantasy (MulPrice lit_1_1) (books (ex_world seed_fantasy))),
                            S '' Fantasy book prices by 10%.'']]\<rparr>)"
    and "map price (updateMany_books f_fantasy (MulPrice lit_1_1) [hobbit, earthsea, colour_of_magic]) =
         [dbl 11, dbl 22, dbl 33]"
    and "modifiedCount f_fantasy (MulPrice lit_1_1) [hobbit, earthsea, colour_of_magic] = 3"
    using g by simp_all
  then show ?thesis
    by (simp add: ex_world_def seed_fantasy_def)
qed

section \<open>The error boundary and the release of the connection\<close>




section \<open>The year-threshold delete\<close>

text \<open>
  C3.  After the year-threshold delete no remaining record has a year below 1950: the
  step keeps exactly the records from 1950 on, in their order; the reported
  \<open>deletedCount\<close> is the number of records below 1950, which is the number by which
  the collection shrinks, and the step prints it.  No later step of the script writes
  to the collection: when the calls up to the delete do not fail, no record of the
  collection at the end of the run has a year below 1950.
\<close>

theorem year_threshold_delete:
  "(\<forall>b\<in>set (deleteMany_books f_old bs). 1950 \<le> published_year b)
   \<and> deleteMany_books f_old bs = filter (\<lambda>b. 1950 \<le> published_year b) bs
   \<and> deletedCount f_old bs = length (filter (\<lambda>b. published_year b < 1950) bs)
   \<and> length (deleteMany_books f_old bs) + deletedCount f_old bs = length bs
   \<and> (fault srv 3 = None \<longrightarrow>
       s_deleteOld srv w =
         (Inr (), w\<lparr>books := deleteMany_books f_old (books w),
                    trace := trace w @
                      [Call client (booksCollection (DeleteMany f_old)),
                       Log [S ''Deleted '', N (deletedCount f_old (books w)),
                            S '' books published before 1950.'']]\<rparr>))
   \<and> ((\<forall>k\<le>3. fault srv k = None) \<longrightarrow>
       (\<forall>b\<in>set (books (snd (executeQueries srv w))). 1950 \<le> published_year b))"
proof -
  have "length (deleteMany_books f_old bs) + deletedCount f_old bs = length bs"
    unfolding deleteMany_old deletedCount_old
    using sum_length_filter_compl [of "\<lambda>b. published_year b < 1950" bs]
    by (simp add: not_less)
  moreover have "\<forall>b\<in>set (books (snd (executeQueries srv w))). 1950 \<le> published_year b"
    if "\<forall>k\<le>3. fault srv k = None"
    by (simp add: books_after_run [OF that] after_crud_def deleteMany_old)
  ultimately show ?thesis
    by (simp add: deleteMany_old deletedCount_old s_deleteOld_ok)
qed

theorem year_threshold_delete_witness:
  "deleteMany_books f_old seed_fantasy = [earthsea, colour_of_magic]
   \<and> deletedCount f_old seed_fantasy = 1
   \<and> last (trace (snd (s_deleteOld never_failing (ex_world seed_fantasy)))) =
       Log [S ''Deleted '', N 1, S '' books published before 1950.'']
   \<and> map published_year (books (snd (executeQueries never_failing (ex_world seed_fantasy)))) =
       [1968, 1983]"
proof -
  have y: "published_year hobbit = 1937" "published_year earthsea = 1968"
    "published_year colour_of_magic = 1983"
    by (simp_all add: hobbit_def earthsea_def colour_of_magic_def)
  have g: "genre hobbit = ''Fantasy''" "genre earthsea = ''Fantasy''"
    "genre colour_of_magic = ''Fantasy''"
    by (simp_all add: hobbit_def earthsea_def colour_of_magic_def)
  from year_threshold_delete [of seed_fantasy never_failing "ex_world seed_fantasy"]
  have d: "deleteMany_books f_old seed_fantasy = [earthsea, colour_of_magic]"
    and c: "deletedCount f_old seed_fantasy = 1"
    and s: "s_deleteOld never_failing (ex_world seed_fantasy) =
         (Inr (), (ex_world seed_fantasy)\<lparr>books := deleteMany_books f_old (books (ex_world seed_fantasy)),
                    trace := trace (ex_world seed_fantasy) @
                      [Call client (booksCollection (DeleteMany f_old)),
                       Log [S ''Deleted '', N (deletedCount f_old (books (ex_world seed_fantasy))),
                            S '' books published before 1950.'']]\<rparr>)"
    by (simp_all add: seed_fantasy_def y)
  have "books (snd (executeQueries never_failing (ex_world seed_fantasy))) =
          after_crud seed_fantasy"
    by (simp add: books_after_run ex_world_def)
  then have "map published_year (books (snd (executeQueries never_failing (ex_world seed_fantasy)))) =
       [1968, 1983]"
    by (simp add: after_crud_def deleteMany_old updateMany_books_def seed_fantasy_def y g)
  then show ?thesis using d c s by (simp add: ex_world_def)
qed

section \<open>The connection of the Query Runner\<close>

text \<open>
  C4.  Let the Connector run, with \<open>MONGODB_URI\<close> set to the very address of the
  script, and then the Query Runner: its calls do not go through the connection that
  the Connector opened.
\<close>

theorem runner_ignores_connector:
  "\<not> runs_on_connector (ex_env ''mongodb://localhost:27017'') never_failing (ex_world [])"
proof -
  let ?w1 = "snd (connectDB (ex_env ''mongodb://localhost:27017'') never_failing (ex_world []))"
  have oc: "open_conns ?w1 = [Mongoose (Some ''mongodb://localhost:27017'')]"
    by (simp add: connectDB_conns ex_env_def ex_world_def)
  from run_calls [of ?w1 never_failing] obtain m where
    "calls_of (new_events ?w1 (snd (executeQueries never_failing ?w1))) =
       (client, Connect) # take m (tl requests) @ [(client, Close)]" ..
  then have "client \<in> set (map fst (calls_of (new_events ?w1 (snd (executeQueries never_failing ?w1)))))"
    by simp
  moreover have "client \<notin> set (open_conns ?w1)"
    unfolding oc by (simp add: client_def)
  ultimately show ?thesis
    unfolding runs_on_connector_def Let_def list_all_iff by blast
qed

text \<open>
  C4 (amended).  Every library call of the Query Runner goes through its own client,
  the \<open>MongoClient\<close> it constructs for the address \<open>mongodb://localhost:27017\<close>, and
  the first of them is the connect of that client: the Query Runner opens its
  connection itself.  The Connector's only call is the connect of the mongoose
  connection, which the Query Runner never uses.
\<close>

theorem runner_uses_own_client:
  "list_all (\<lambda>c. c = Client ''mongodb://localhost:27017'')
     (map fst (calls_of (new_events w (snd (executeQueries srv w)))))
   \<and> (\<exists>rest. calls_of (new_events w (snd (executeQueries srv w))) =
         (Client ''mongodb://localhost:27017'', Connect) # rest)
   \<and> map fst (calls_of (new_events w (snd (connectDB env srv' w)))) =
       [Mongoose (env ''MONGODB_URI'')]"
proof -
  from run_calls [of w srv] obtain m where
    c: "calls_of (new_events w (snd (executeQueries srv w))) =
       (client, Connect) # take m (tl requests) @ [(client, Close)]" ..
  have "list_all (\<lambda>cr. fst cr = client) (tl requests)"
    by (simp add: requests_def)
  then have "list_all (\<lambda>cr. fst cr = client) (take m (tl requests))"
    unfolding list_all_iff by (meson in_set_takeD)
  then have a: "list_all (\<lambda>c. c = Client ''mongodb://localhost:27017'')
     (map fst (calls_of (new_events w (snd (executeQueries srv w)))))"
    unfolding c by (simp add: list_all_iff client_def uri_def)
  have b: "\<exists>rest. calls_of (new_events w (snd (executeQueries srv w))) =
         (Client ''mongodb://localhost:27017'', Connect) # rest"
    unfolding c by (simp add: client_def uri_def)
  have d: "map fst (calls_of (new_events w (snd (connectDB env srv' w)))) =
       [Mongoose (env ''MONGODB_URI'')]"
    by (simp add: connectDB_trace)
  show ?thesis using a b d by blast
qed

theorem runner_uses_own_client_witness:
  "list_all (\<lambda>c. c = Client ''mongodb://localhost:27017'')
     (map fst (calls_of (new_events (ex_world []) (snd (executeQueries never_failing (ex_world []))))))
   \<and> map fst (calls_of (new_events (ex_world [])
         (snd (connectDB (ex_env ''mongodb://localhost:27017'') never_failing (ex_world []))))) =
       [Mongoose (Some ''mongodb://localhost:27017'')]"
  using runner_uses_own_client
    [of "ex_world []" never_failing "ex_env ''mongodb://localhost:27017''" never_failing]
  by (simp add: ex_env_def)

section \<open>The connection target\<close>

lemma run_connect_targets:
  "connect_targets (new_events w (snd (executeQueries srv w))) = [Some ''mongodb://localhost:27017'']"
proof -
  from run_calls [of w srv] obtain m where
    c: "calls_of (new_events w (snd (executeQueries srv w))) =
       (client, Connect) # take m (tl requests) @ [(client, Close)]" ..
  have "filter (\<lambda>cr. snd cr = Connect) (take m (tl requests)) = []"
    by (rule filter_take_nil) (rule connects_of_rest)
  then show ?thesis
    unfolding connect_targets_def c by (simp add: client_def uri_def)
qed

text \<open>
  C5.  With \<open>MONGODB_URI\<close> set to the address of a hosted cluster, the query script
  does not connect to that address.
\<close>

theorem target_ignores_environment:
  "\<not> target_from_env (ex_env ''mongodb+srv://cluster0.example.mongodb.net/plp_bookstore'')
       never_failing (ex_world [])"
  by (simp add: target_from_env_def run_connect_targets ex_env_def)

text \<open>
  C5 (amended).  In every run the query script opens exactly one connection, to the
  address \<open>mongodb://localhost:27017\<close> written in the script, whatever the
  environment; the Connector opens its connection to the value of the environment
  variable \<open>MONGODB_URI\<close>.
\<close>

theorem connection_targets:
  "connect_targets (new_events w (snd (executeQueries srv w))) = [Some ''mongodb://localhost:27017'']
   \<and> connect_targets (new_events w (snd (connectDB env srv' w))) = [env ''MONGODB_URI'']"
  by (simp add: run_connect_targets) (simp add: connect_targets_def connectDB_trace)

theorem connection_targets_witness:
  "connect_targets (new_events (ex_world [])
      (snd (executeQueries never_failing (ex_world [])))) = [Some ''mongodb://localhost:27017'']
   \<and> connect_targets (new_events (ex_world [])
      (snd (connectDB (ex_env ''mongodb+srv://cluster0.example.mongodb.net/plp_bookstore'')
             never_failing (ex_world [])))) =
       [Some ''mongodb+srv://cluster0.example.mongodb.net/plp_bookstore'']"
  using connection_targets
    [of "ex_world []" never_failing
        "ex_env ''mongodb+srv://cluster0.example.mongodb.net/plp_bookstore''" never_failing]
  by (simp add: ex_env_def)

section \<open>The paginated reads\<close>

text \<open>
  C6.  In a run on the empty collection in which no call fails, the paginated reads
  are not two reads that differ in filter and in sort order.
\<close>

theorem pages_share_filter_and_sort:
  "\<not> two_distinct_paginated_reads
       (new_events (ex_world []) (snd (executeQueries never_failing (ex_world []))))"
proof -
  have "paginated_reads (new_events (ex_world []) (snd (executeQueries never_failing (ex_world [])))) =
          [q_page1, q_page2]"
    by (simp add: paginated_reads_def completed_run_reads paginated_simps)
  then show ?thesis
    by (simp add: two_distinct_paginated_reads_def q_page1_def q_page2_def)
qed

text \<open>
  C6 (amended).  In a run in which no call fails the script performs seven reads, of
  which exactly two are paginated: the two pages.  They have the same (empty) filter,
  the same sort order (title, ascending) and the same limit 5, and differ in the
  offset only, 0 and 5.  The two reads before them differ in filter and in sort order,
  but neither takes an offset: the first takes neither a sort order nor a limit, the
  second is sorted by price, descending, with the limit 3.
\<close>

theorem reads_of_a_run:
  assumes "\<forall>k<19. fault srv k = None"
  shows "find_queries (calls_of (new_events w (snd (executeQueries srv w)))) =
           [q_fantasyBooks, q_inStockAfter1950, q_top3Books, q_page1, q_page2, q_booksAsc, q_booksDesc]
       \<and> paginated_reads (new_events w (snd (executeQueries srv w))) = [q_page1, q_page2]
       \<and> q_filter q_page1 = [] \<and> q_filter q_page2 = []
       \<and> q_sort q_page1 = [(''title'', 1)] \<and> q_sort q_page2 = [(''title'', 1)]
       \<and> q_skip q_page1 = Some 0 \<and> q_skip q_page2 = Some 5
       \<and> q_limit q_page1 = Some 5 \<and> q_limit q_page2 = Some 5
       \<and> q_filter q_inStockAfter1950 \<noteq> q_filter q_top3Books
       \<and> q_sort q_inStockAfter1950 = [] \<and> q_sort q_top3Books = [(''price'', - 1)]
       \<and> q_skip q_inStockAfter1950 = None \<and> q_skip q_top3Books = None
       \<and> q_limit q_inStockAfter1950 = None \<and> q_limit q_top3Books = Some 3"
proof -
  have "paginated_reads (new_events w (snd (executeQueries srv w))) = [q_page1, q_page2]"
    by (simp add: paginated_reads_def completed_run_reads [OF assms] paginated_simps)
  then show ?thesis
    using completed_run_reads [OF assms, of w]
    by (simp add: q_page1_def q_page2_def q_inStockAfter1950_def q_top3Books_def PAGE_SIZE_def)
qed

theorem reads_of_a_run_witness:
  "paginated_reads (new_events (ex_world []) (snd (executeQueries never_failing (ex_world [])))) =
     [q_page1, q_page2]
   \<and> q_filter q_page1 = q_filter q_page2 \<and> q_sort q_page1 = q_sort q_page2"
  using reads_of_a_run [of never_failing "ex_world []"] by simp

section \<open>The two pages\<close>




section \<open>The counts of the aggregation pipelines\<close>

text \<open>
  C8.  On six records by six authors the counts of the pipelines do not all sum to
  the number of records.
\<close>

theorem limits_drop_groups: "\<not> counts_sum_to_total (\<lambda>xs. hd xs) six_authors"
  using topAuthors_counts(2) [of "\<lambda>xs. hd xs" six_authors]
  by (simp add: counts_sum_to_total_def card_six_authors)

text \<open>
  C8 (amended).  The counts of the pipelines without a limit, by genre and by decade,
  sum to the number of records.  The counts of the top-authors pipeline (limit 5) and
  of the pipeline for the author with most books (limit 1) sum to at most that number,
  and to that number exactly when the records have at most five authors, and at most
  one.
\<close>

theorem group_counts:
  "count_sum ''totalBooks'' (run_pipeline av p_avgPriceByGenre bs) = length bs
   \<and> count_sum ''count'' (run_pipeline av p_booksByDecade bs) = length bs
   \<and> count_sum ''totalBooks'' (run_pipeline av p_topAuthors bs) \<le> length bs
   \<and> (count_sum ''totalBooks'' (run_pipeline av p_topAuthors bs) = length bs
        \<longleftrightarrow> card (author ` set bs) \<le> 5)
   \<and> count_sum ''bookCount'' (run_pipeline av p_topAuthorByBooks bs) \<le> length bs
   \<and> (count_sum ''bookCount'' (run_pipeline av p_topAuthorByBooks bs) = length bs
        \<longleftrightarrow> card (author ` set bs) \<le> 1)"
  using genre_counts decade_counts topAuthors_counts topAuthorByBooks_counts by blast

theorem group_counts_witness:
  "count_sum ''totalBooks'' (run_pipeline (\<lambda>xs. hd xs) p_avgPriceByGenre six_authors) = 6
   \<and> count_sum ''count'' (run_pipeline (\<lambda>xs. hd xs) p_booksByDecade six_authors) = 6
   \<and> count_sum ''totalBooks'' (run_pipeline (\<lambda>xs. hd xs) p_topAuthors six_authors) < 6
   \<and> count_sum ''bookCount'' (run_pipeline (\<lambda>xs. hd xs) p_topAuthorByBooks six_authors) < 6"
proof -
  have l: "length six_authors = 6" by (simp add: six_authors_def)
  from group_counts [of "\<lambda>xs. hd xs" six_authors]
  show ?thesis unfolding l card_six_authors by simp
qed

section \<open>The author with most books, on no groups\<close>

text \<open>
  C9.  When its call does not fail, the step for the author with most books always
  returns normally: the read of element 0 is guarded, so the TypeError of a member
  access on \<open>undefined\<close> cannot arise.  The aggregation returns no group exactly on
  the empty collection; the step then prints the fallback message and nothing else.
  In a run in which the calls up to this one do not fail and the collection is empty
  after the two writing steps, the fallback message is followed at once by the heading
  and the call of the next step.
\<close>

theorem empty_result_fallback:
  "(fault srv 10 = None \<longrightarrow> fst (s_topAuthorByBooks srv w) = Inr ())
   \<and> (run_pipeline av p_topAuthorByBooks bs = [] \<longleftrightarrow> bs = [])
   \<and> (fault srv 10 = None \<and> run_pipeline (average srv) p_topAuthorByBooks (books w) = [] \<longrightarrow>
       s_topAuthorByBooks srv w =
         (Inr (), w\<lparr>trace := trace w @
            [Log [S ''--- 7. AGGREGATION PIPELINE: Author with Most Books ---''],
             Call client (booksCollection (Aggregate p_topAuthorByBooks)),
             Log [S ''No authors found in the collection.'']]\<rparr>))
   \<and> ((\<forall>k\<le>10. fault srv k = None) \<and>
        run_pipeline (average srv) p_topAuthorByBooks (after_crud (books w)) = [] \<longrightarrow>
       (\<exists>evs1 evs2. trace (snd (executeQueries srv w)) =
           trace w @ evs1 @
           [Call client (booksCollection (Aggregate p_topAuthorByBooks)),
            Log [S ''No authors found in the collection.''],
            Log [S ''--- 8. AGGREGATION PIPELINE: Books Grouped by Publication Decade ---''],
            Call client (booksCollection (Aggregate p_booksByDecade))] @ evs2))"
  using s_topAuthorByBooks_returns [of srv w] topAuthorByBooks_empty_iff [of av bs]
    s_topAuthorByBooks_empty [of srv w] run_reaches_decade [of srv w]
  by blast

theorem empty_result_fallback_witness:
  "fst (s_topAuthorByBooks never_failing (ex_world [])) = Inr ()
   \<and> trace (snd (s_topAuthorByBooks never_failing (ex_world []))) =
       [Log [S ''--- 7. AGGREGATION PIPELINE: Author with Most Books ---''],
        Call client (booksCollection (Aggregate p_topAuthorByBooks)),
        Log [S ''No authors found in the collection.'']]
   \<and> (\<exists>evs1 evs2. trace (snd (executeQueries never_failing (ex_world []))) =
           evs1 @
           [Call client (booksCollection (Aggregate p_topAuthorByBooks)),
            Log [S ''No authors found in the collection.''],
            Log [S ''--- 8. AGGREGATION PIPELINE: Books Grouped by Publication Decade ---''],
            Call client (booksCollection (Aggregate p_booksByDecade))] @ evs2)"
proof -
  have a: "after_crud [] = []"
    by (simp add: after_crud_def deleteMany_books_def updateMany_books_def)
  from empty_result_fallback [of never_failing "ex_world []" "average never_failing" "[]"]
  show ?thesis
    by (simp add: ex_world_def a)
qed

section \<open>Failure of the initial connect\<close>

text \<open>
  C10.  A run in which the connect fails and the \<open>close\<close> of the \<open>finally\<close> block
  fails as well: the closing message is not printed.
\<close>

theorem close_failure_skips_message:
  "fault connect_and_close_fail 0 = Some (Error ''ECONNREFUSED'')
   \<and> \<not> closes_with_message connect_and_close_fail (ex_world [])"
proof -
  let ?srv = "connect_and_close_fail"
  let ?w1 = "(ex_world [])\<lparr>trace := trace (ex_world []) @
                [Log [S ''Attempting to connect to MongoDB Atlas...''], Call client Connect]\<rparr>"
  have "seq ([] @ s_connect ?srv # tl (try_steps ?srv)) (ex_world []) =
          (Inl (Error ''ECONNREFUSED''), ?w1)"
    by (rule seq_append_fail) (simp_all add: ret_def s_connect_fails)
  then have t: "seq (try_steps ?srv) (ex_world []) = (Inl (Error ''ECONNREFUSED''), ?w1)"
    using try_steps_Cons [of ?srv] by simp
  have "new_events (ex_world []) (snd (executeQueries ?srv (ex_world []))) =
          [Log [S ''Attempting to connect to MongoDB Atlas...''],
           Call client Connect,
           LogError [S ''Error occurred:'', E (Error ''ECONNREFUSED'')],
           Call client Close]"
    using executeQueries_trace [OF t] by (simp add: new_events_def ex_world_def)
  then show ?thesis by (simp add: closes_with_message_def)
qed

text \<open>
  C10 (amended).  Connecting happens inside the guarded sequence.  If the initial
  connect fails with an error \<open>e\<close>, the \<open>try\<close> block ends there, in the world it
  started in (no connection opened, the collection untouched) with only the attempt
  printed and the connect call made: no query step runs.  The error is printed and
  \<open>close\<close> is still called on the client, which never connected.  The line
  \<open>Connection closed.\<close> is printed after it exactly when that \<open>close\<close> returns; when
  it fails too, the line is skipped and the error of \<open>close\<close> leaves the function.
\<close>

theorem connect_failure_still_closes:
  assumes "fault srv 0 = Some e"
  shows "seq (try_steps srv) w =
           (Inl e, w\<lparr>trace := trace w @ [Log [S ''Attempting to connect to MongoDB Atlas...''],
                                            Call client Connect]\<rparr>)
       \<and> trace (snd (executeQueries srv w)) =
           trace w @ [Log [S ''Attempting to connect to MongoDB Atlas...''],
                      Call client Connect,
                      LogError [S ''Error occurred:'', E e],
                      Call client Close] @
           (if fault srv 19 = None then [Log [S ''Connection closed.'']] else [])
       \<and> books (snd (executeQueries srv w)) = books w
       \<and> open_conns (catch_error (seq (try_steps srv) w)) = open_conns w
       \<and> fst (executeQueries srv w) = (case fault srv 19 of None \<Rightarrow> Inr () | Some e' \<Rightarrow> Inl e')
       \<and> (closes_with_message srv w \<longleftrightarrow> fault srv 19 = None)"
proof -
  let ?w1 = "w\<lparr>trace := trace w @ [Log [S ''Attempting to connect to MongoDB Atlas...''],
                                      Call client Connect]\<rparr>"
  have "seq ([] @ s_connect srv # tl (try_steps srv)) w = (Inl e, ?w1)"
    by (rule seq_append_fail) (simp_all add: ret_def s_connect_fails [OF assms])
  then have t: "seq (try_steps srv) w = (Inl e, ?w1)"
    by (simp add: try_steps_def)
  have b: "books (snd (executeQueries srv w)) = books w"
    by (cases "fault srv 19")
      (simp_all add: executeQueries_def t catch_error_def console_error_def finally_block_def
        client_close_def await_def bind_def console_log_def ret_def)
  have tr: "trace (snd (executeQueries srv w)) =
           trace w @ [Log [S ''Attempting to connect to MongoDB Atlas...''],
                      Call client Connect,
                      LogError [S ''Error occurred:'', E e],
                      Call client Close] @
           (if fault srv 19 = None then [Log [S ''Connection closed.'']] else [])"
    using executeQueries_trace [OF t] by simp
  have oc: "open_conns (catch_error (seq (try_steps srv) w)) = open_conns w"
    using assms by (simp add: conns_before_finally)
  have res: "fst (executeQueries srv w) = (case fault srv 19 of None \<Rightarrow> Inr () | Some e' \<Rightarrow> Inl e')"
    by (cases "fault srv 19") (simp_all add: executeQueries_result)
  have msg: "closes_with_message srv w \<longleftrightarrow> fault srv 19 = None"
    by (cases "fault srv 19") (simp_all add: closes_with_message_def new_events_def tr)
  show ?thesis using t tr b oc res msg by blast
qed

theorem connect_failure_still_closes_witness:
  "trace (snd (executeQueries (failing_at 0 (Error ''ECONNREFUSED'')) (ex_world []))) =
     [Log [S ''Attempting to connect to MongoDB Atlas...''],
      Call client Connect,
      LogError [S ''Error occurred:'', E (Error ''ECONNREFUSED'')],
      Call client Close,
      Log [S ''Connection closed.'']]
   \<and> closes_with_message (failing_at 0 (Error ''ECONNREFUSED'')) (ex_world [])
   \<and> fst (executeQueries (failing_at 0 (Error ''ECONNREFUSED'')) (ex_world [])) = Inr ()"
  using connect_failure_still_closes
    [of "failing_at 0 (Error ''ECONNREFUSED'')" "Error ''ECONNREFUSED''" "ex_world []"]
  by (simp add: ex_world_def)

end
